theory Spec2Isabelle
  imports Complex_Main
begin

section \<open>Strings\<close>

text \<open>
  Python's \<^verbatim>\<open>x in s\<close> on strings is the substring test; \<open>any(x in s for x in xs)\<close>
  is the same test for some element of the list.
\<close>

fun starts_with :: "string \<Rightarrow> string \<Rightarrow> bool" where
  "starts_with [] s = True"
| "starts_with (a # x) [] = False"
| "starts_with (a # x) (b # s) = (a = b \<and> starts_with x s)"

fun str_in :: "string \<Rightarrow> string \<Rightarrow> bool" where
  "str_in x [] = (x = [])"
| "str_in x (c # s) = (starts_with x (c # s) \<or> str_in x s)"

definition any_in :: "string list \<Rightarrow> string \<Rightarrow> bool" where
  "any_in xs s = list_ex (\<lambda>x. str_in x s) xs"

text \<open>\<open>s.replace("'", "''")\<close>: every single quote is doubled.\<close>

definition quote :: char where
  "quote = CHR 0x27"

fun replace_quote :: "string \<Rightarrow> string" where
  "replace_quote [] = []"
| "replace_quote (c # s) = (if c = quote then [quote, quote] else [c]) @ replace_quote s"

text \<open>\<open>sep.join(xs)\<close>.\<close>

fun join :: "string \<Rightarrow> string list \<Rightarrow> string" where
  "join sep [] = []"
| "join sep [x] = x"
| "join sep (x # y # xs) = x @ sep @ join sep (y # xs)"

subsection \<open>Formatting numbers\<close>

definition digit_char :: "nat \<Rightarrow> char" where
  "digit_char d = ''0123456789'' ! (d mod 10)"

text \<open>\<open>str(n)\<close> for a natural number.\<close>

fun decimal :: "nat \<Rightarrow> string" where
  "decimal n = (if n < 10 then [digit_char n] else decimal (n div 10) @ [digit_char (n mod 10)])"

declare decimal.simps [simp del]

text \<open>\<open>str(i)\<close> for an integer.\<close>

definition str_int :: "int \<Rightarrow> string" where
  "str_int i = (if i < 0 then ''-'' @ decimal (nat (- i)) else decimal (nat i))"

text \<open>A number padded with zeros on the left to a width, as \<open>%02d\<close> does.\<close>

definition zfill :: "nat \<Rightarrow> nat \<Rightarrow> string" where
  "zfill w n = replicate (w - length (decimal n)) (CHR ''0'') @ decimal n"

text \<open>The format \<open>{n:,}\<close>: groups of three digits separated by commas.\<close>

fun commas :: "nat \<Rightarrow> string" where
  "commas n = (if n < 1000 then decimal n else commas (n div 1000) @ '','' @ zfill 3 (n mod 1000))"

declare commas.simps [simp del]

text \<open>
  The format \<open>{x:.4f}\<close> prints the exact value of the float, rounded to four decimals;
  a value exactly halfway between two of them goes to the one whose last digit is even
  (\<open>format(105/32, '.4f')\<close> is \<open>3.2812\<close>). Floats being modelled as reals, \<open>fmt4\<close> rounds
  the real number in the same way.
\<close>

definition round_half_even :: "real \<Rightarrow> int" where
  "round_half_even x =
    (let f = \<lfloor>x\<rfloor>; d = x - of_int f
     in if d < 1 / 2 then f
        else if 1 / 2 < d then f + 1
        else if even f then f else f + 1)"

definition fmt4 :: "real \<Rightarrow> string" where
  "fmt4 x =
    (let n = nat (round_half_even (\<bar>x\<bar> * 10000))
     in (if x < 0 then ''-'' else []) @ decimal (n div 10000) @ ''.'' @ zfill 4 (n mod 10000))"

section \<open>Dates\<close>

text \<open>
  A \<open>datetime\<close> is modelled by the proleptic Gregorian ordinal of its date
  (\<open>date.toordinal()\<close>: 1 is 0001-01-01, 3652059 is 9999-12-31). The script only moves
  its datetimes by whole days and reads their calendar date, so the time of day is never
  observed. The functions follow Python's \<open>datetime\<close> module.
\<close>

definition MINORD :: int where
  "MINORD = 1"

definition MAXORD :: int where
  "MAXORD = 3652059"

definition is_leap :: "int \<Rightarrow> bool" where
  "is_leap y = (y mod 4 = 0 \<and> (y mod 100 \<noteq> 0 \<or> y mod 400 = 0))"

definition days_before_year :: "int \<Rightarrow> int" where
  "days_before_year y = (y - 1) * 365 + (y - 1) div 4 - (y - 1) div 100 + (y - 1) div 400"

definition DAYS_IN_MONTH :: "int list" where
  "DAYS_IN_MONTH = [31, 28, 31, 30, 31, 30, 31, 31, 30, 31, 30, 31]"

definition days_before_month :: "int \<Rightarrow> int \<Rightarrow> int" where
  "days_before_month y m =
    sum_list (take (nat (m - 1)) DAYS_IN_MONTH) + (if m > 2 \<and> is_leap y then 1 else 0)"

definition ymd2ord :: "int \<Rightarrow> int \<Rightarrow> int \<Rightarrow> int" where
  "ymd2ord y m d = days_before_year y + days_before_month y m + d"

text \<open>The year, month and day of an ordinal: Python's \<open>_ord2ymd\<close>.\<close>

definition ord2ymd :: "int \<Rightarrow> int \<times> int \<times> int" where
  "ord2ymd ordinal =
    (let n = ordinal - 1;
         n400 = n div 146097; r400 = n mod 146097;
         n100 = r400 div 36524; r100 = r400 mod 36524;
         n4 = r100 div 1461; r4 = r100 mod 1461;
         n1 = r4 div 365; r1 = r4 mod 365;
         year = n400 * 400 + 1 + n100 * 100 + n4 * 4 + n1
     in if n1 = 4 \<or> n100 = 4 then (year - 1, 12, 31)
        else
          let leapyear = (n1 = 3 \<and> (n4 \<noteq> 24 \<or> n100 = 3));
              month = (r1 + 50) div 32;
              preceding = sum_list (take (nat (month - 1)) DAYS_IN_MONTH)
                + (if month > 2 \<and> leapyear then 1 else 0)
          in if preceding > r1
             then (year, month - 1,
                   r1 - (preceding - (DAYS_IN_MONTH ! nat (month - 2)
                     + (if month - 1 = 2 \<and> leapyear then 1 else 0))) + 1)
             else (year, month, r1 - preceding + 1))"

text \<open>\<open>d.timetuple().tm_yday\<close>: the day of the year, 1 on the first of January.\<close>

definition tm_yday :: "int \<Rightarrow> int" where
  "tm_yday d = (case ord2ymd d of (y, m, dd) \<Rightarrow> days_before_month y m + dd)"

text \<open>\<open>d.strftime('%Y-%m-%d')\<close>.\<close>

definition strftime_ymd :: "int \<Rightarrow> string" where
  "strftime_ymd d =
    (case ord2ymd d of (y, m, dd) \<Rightarrow>
       zfill 4 (nat y) @ ''-'' @ zfill 2 (nat m) @ ''-'' @ zfill 2 (nat dd))"

text \<open>
  \<open>dt - timedelta(days=n)\<close>. \<open>timedelta\<close> raises \<open>OverflowError\<close> beyond 999999999
  days, and the subtraction raises it when the date leaves the years 1 to 9999;
  \<open>None\<close> is the raised exception.
\<close>

definition minus_days :: "int \<Rightarrow> int \<Rightarrow> int option" where
  "minus_days dt n =
    (if \<bar>n\<bar> > 999999999 then None
     else if MINORD \<le> dt - n \<and> dt - n \<le> MAXORD then Some (dt - n)
     else None)"

section \<open>The Python runtime\<close>

text \<open>
  What a run of the script reads from outside its own text: the clock, the hash of
  strings and the generator of the \<open>random\<close> module.
  \<^item> \<open>END_DATE\<close> is \<open>datetime.now()\<close> read when the module is loaded, and \<open>now_iso\<close>
    is the text \<open>datetime.now().isoformat()\<close> read for the header;
  \<^item> \<open>str_hash\<close> is the built-in \<open>hash\<close> on strings, which Python salts anew for every
    process unless \<open>PYTHONHASHSEED\<close> is set;
  \<^item> \<open>rng_seed\<close> is \<open>random.seed(a)\<close> for an integer: the generator's new state, a
    function of \<open>a\<close> alone; \<open>rng_random\<close> is \<open>random.random()\<close> and \<open>rng_randbelow n\<close> is
    \<open>random._randbelow(n)\<close>, each returning its result and the generator's next state.
\<close>

record 'g runtime =
  END_DATE :: int
  now_iso :: string
  str_hash :: "string \<Rightarrow> int"
  rng_seed :: "int \<Rightarrow> 'g"
  rng_random :: "'g \<Rightarrow> real \<times> 'g"
  rng_randbelow :: "nat \<Rightarrow> 'g \<Rightarrow> nat \<times> 'g"

text \<open>
  The contract of the library: \<open>random()\<close> lies in \<open>[0, 1)\<close>, \<open>_randbelow(n)\<close> lies
  below \<open>n\<close>, and \<open>datetime.now()\<close> is a datetime.
\<close>

definition rng_ok :: "'g runtime \<Rightarrow> bool" where
  "rng_ok E =
    ((\<forall>g. 0 \<le> fst (rng_random E g) \<and> fst (rng_random E g) < 1)
     \<and> (\<forall>n g. 0 < n \<longrightarrow> fst (rng_randbelow E n g) < n))"

definition clock_ok :: "'g runtime \<Rightarrow> bool" where
  "clock_ok E = (MINORD \<le> END_DATE E \<and> END_DATE E \<le> MAXORD)"

text \<open>
  \<open>random.seed(a)\<close> as a step of the global generator: the state before the call is
  discarded.
\<close>

definition reseed :: "'g runtime \<Rightarrow> int \<Rightarrow> 'g \<Rightarrow> 'g" where
  "reseed E a g = rng_seed E a"

text \<open>\<open>random.uniform(a, b)\<close> is \<open>a + (b - a) * random()\<close>.\<close>

definition uniform :: "'g runtime \<Rightarrow> real \<Rightarrow> real \<Rightarrow> 'g \<Rightarrow> real \<times> 'g" where
  "uniform E a b g = (case rng_random E g of (r, g') \<Rightarrow> (a + (b - a) * r, g'))"

text \<open>
  \<open>random.choice(seq)\<close> is \<open>seq[_randbelow(len(seq))]\<close>, and raises \<open>IndexError\<close> on an
  empty sequence or an index out of range; \<open>None\<close> is the raised exception.
\<close>

definition choice :: "'g runtime \<Rightarrow> 'a list \<Rightarrow> 'g \<Rightarrow> ('a \<times> 'g) option" where
  "choice E xs g =
    (if xs = [] then None
     else case rng_randbelow E (length xs) g of
            (i, g') \<Rightarrow> if i < length xs then Some (xs ! i, g') else None)"

section \<open>Configuration\<close>

definition START_DATE :: int where
  "START_DATE = ymd2ord 2023 1 1"

definition TOTAL_DAYS :: "'g runtime \<Rightarrow> int" where
  "TOTAL_DAYS E = min (END_DATE E - START_DATE) 1095"

definition BASE_PRICE :: real where
  "BASE_PRICE = 3.30"

definition CATEGORIES :: "string list" where
  "CATEGORIES =
    [''Feeder Steer'', ''Feeder Heifer'', ''Yearling Steer'', ''Yearling Bull'',
     ''Grown Steer'', ''Grown Bull'', ''Weaner Steer'', ''Weaner Bull'', ''Weaner Heifer'',
     ''Breeding Cow'', ''Breeder'', ''Dry Cow'', ''Cull Cow'', ''Heifer'',
     ''First Calf Heifer'', ''Slaughter Cattle'', ''Calves'',
     ''Breeding Ewe'', ''Maiden Ewe'', ''Dry Ewe'', ''Cull Ewe'',
     ''Weaner Ewe'', ''Feeder Ewe'', ''Slaughter Ewe'',
     ''Wether Lamb'', ''Weaner Lamb'', ''Feeder Lamb'', ''Slaughter Lamb'', ''Lambs'',
     ''Breeder'', ''Dry Sow'', ''Cull Sow'', ''Weaner Pig'', ''Feeder Pig'',
     ''Grower Pig'', ''Finisher Pig'', ''Porker'', ''Baconer'',
     ''Grower Barrow'', ''Finisher Barrow'',
     ''Breeder Doe'', ''Dry Doe'', ''Cull Doe'', ''Breeder Buck'', ''Sale Buck'',
     ''Mature Wether'', ''Rangeland Goat'', ''Capretto'', ''Chevon'']"

definition SALEYARDS :: "string list" where
  "SALEYARDS =
    [''Wagga Wagga Livestock Marketing Centre'',
     ''Dubbo Regional Livestock Market'',
     ''Roma Saleyards'',
     ''Ballarat Regional Livestock Exchange'',
     ''Mount Gambier Livestock Exchange'']"

definition STATES :: "string list" where
  "STATES = [''NSW'', ''VIC'', ''QLD'', ''SA'', ''WA'']"

section \<open>Category multiplier\<close>

text \<open>
  The \<open>if\<close>/\<open>elif\<close> chain of \<open>get_category_multiplier\<close>, in the source's order.
  Python floats are modelled as reals.
\<close>

definition get_category_multiplier :: "string \<Rightarrow> real" where
  "get_category_multiplier category =
    (if str_in ''Weaner'' category \<and> any_in [''Steer'', ''Bull'', ''Heifer''] category then 1.18
     else if str_in ''Yearling'' category \<and> any_in [''Steer'', ''Bull''] category then 1.22
     else if any_in [''Breeding'', ''Heifer'', ''Dry Cow''] category \<or> category = ''Breeder''
       then 1.15
     else if str_in ''Cull Cow'' category then 0.95
     else if str_in ''Feeder'' category \<and> any_in [''Steer'', ''Heifer''] category then 1.18
     else if str_in ''Grown'' category \<and> any_in [''Steer'', ''Bull''] category then 1.0
     else if str_in ''Slaughter Cattle'' category then 0.92
     else if str_in ''Calves'' category then 1.25
     else if any_in [''Breeding Ewe'', ''Maiden Ewe'', ''Dry Ewe''] category then 3.2
     else if any_in [''Cull Ewe'', ''Slaughter Ewe''] category then 2.8
     else if any_in [''Wether Lamb'', ''Weaner Lamb'', ''Feeder Lamb''] category then 3.5
     else if any_in [''Slaughter Lamb'', ''Lambs''] category then 3.3
     else if (str_in ''Breeder'' category \<or> str_in ''Dry Sow'' category)
         \<and> str_in ''Sow'' category then 0.66
     else if str_in ''Cull Sow'' category then 0.60
     else if any_in [''Weaner Pig'', ''Feeder Pig''] category then 0.70
     else if str_in ''Grower'' category \<or> str_in ''Finisher'' category then 0.65
     else if str_in ''Porker'' category \<or> str_in ''Baconer'' category then 0.66
     else if str_in ''Breeder Doe'' category \<or> str_in ''Dry Doe'' category then 1.30
     else if str_in ''Cull Doe'' category then 1.20
     else if str_in ''Breeder Buck'' category \<or> str_in ''Sale Buck'' category then 1.35
     else if str_in ''Mature Wether'' category \<or> str_in ''Rangeland Goat'' category then 1.30
     else if str_in ''Capretto'' category then 1.53
     else if str_in ''Chevon'' category then 1.25
     else 1.0)"

section \<open>Price model\<close>

text \<open>The market trend of \<open>calculate_price\<close>: its first \<open>if\<close>/\<open>elif\<close> chain.\<close>

definition market_trend :: "real \<Rightarrow> real" where
  "market_trend progress =
    (if progress < 0.2 then - 0.05 * (progress / 0.2)
     else if progress < 0.4 then - 0.05 - (0.25 * ((progress - 0.2) / 0.2))
     else if progress < 0.6 then - 0.30 + (0.20 * ((progress - 0.4) / 0.2))
     else if progress < 0.8 then - 0.10 + (0.15 * ((progress - 0.6) / 0.2))
     else 0.05 + (0.10 * ((progress - 0.8) / 0.2)))"

text \<open>
  \<open>calculate_price\<close> reseeds the global generator, so it takes the generator's state and
  returns the new one beside the price. It raises \<open>OverflowError\<close> exactly when the date
  of the seasonal term leaves the range of \<open>datetime\<close> (a day offset too large for the
  float division is such an offset).
\<close>

definition calculate_price :: "'g runtime \<Rightarrow> int \<Rightarrow> 'g \<Rightarrow> (real \<times> 'g) option" where
  "calculate_price E day_offset g =
    (let progress = real_of_int day_offset / 1095.0;
         trend = market_trend progress
     in case minus_days (END_DATE E) (TOTAL_DAYS E - day_offset) of
          None \<Rightarrow> None
        | Some date \<Rightarrow>
            let day_of_year = tm_yday date;
                seasonal = sin ((real_of_int day_of_year / 365.0 * 2 * pi) - (pi / 2)) * 0.10;
                week_number = day_offset div 7;
                weekly_seed = week_number mod 13;
                weekly_volatility = sin (real_of_int weekly_seed / 13.0 * 2 * pi) * 0.08;
                (daily_volatility, g') = uniform E (- 0.03) 0.03 (reseed E day_offset g);
                adjusted_price =
                  BASE_PRICE * (1.0 + trend + seasonal + weekly_volatility + daily_volatility)
            in Some (max 3.10 (min 3.50 adjusted_price), g'))"

text \<open>
  The daily variation on its own: the two statements of \<open>calculate_price\<close> that reseed
  the generator with the day offset and draw \<open>random.uniform(-0.03, 0.03)\<close>.
\<close>

definition daily_draw :: "'g runtime \<Rightarrow> int \<Rightarrow> 'g \<Rightarrow> real \<times> 'g" where
  "daily_draw E day_offset g = uniform E (- 0.03) 0.03 (reseed E day_offset g)"

section \<open>Row generator and emitter\<close>

text \<open>One price record: the values of one tuple of the \<open>INSERT\<close> statement.\<close>

record price_record =
  category :: string
  saleyard :: string
  state :: string
  category_price :: real
  date_str :: string
  source :: string

text \<open>The source label: the second \<open>if\<close>/\<open>elif\<close> chain of the loop body.\<close>

definition source_label :: "int \<Rightarrow> string" where
  "source_label day_offset =
    (if day_offset < 7 then ''Saleyard''
     else if day_offset < 30 then ''State Indicator''
     else ''National Benchmark'')"

text \<open>
  The loop body up to the source label, as a function of the two lists it draws from:
  the saleyard is the chosen element after \<open>.replace("'", "''")\<close>, the state is the
  chosen element itself.
\<close>

definition make_record_from ::
  "'g runtime \<Rightarrow> string list \<Rightarrow> string list \<Rightarrow> int \<Rightarrow> string \<Rightarrow> real \<Rightarrow> string \<Rightarrow> 'g
    \<Rightarrow> (price_record \<times> 'g) option" where
  "make_record_from E saleyards states day_offset date base_price cat g =
    (let price = base_price * get_category_multiplier cat;
         g0 = reseed E (day_offset + str_hash E cat) g
     in case choice E saleyards g0 of
          None \<Rightarrow> None
        | Some (chosen, g1) \<Rightarrow>
            (case choice E states g1 of
               None \<Rightarrow> None
             | Some (st, g2) \<Rightarrow>
                 Some (\<lparr>category = cat, saleyard = replace_quote chosen, state = st,
                         category_price = price, date_str = date,
                         source = source_label day_offset\<rparr>, g2)))"

text \<open>The loop body of the script draws from \<open>SALEYARDS\<close> and \<open>STATES\<close>.\<close>

definition make_record ::
  "'g runtime \<Rightarrow> int \<Rightarrow> string \<Rightarrow> real \<Rightarrow> string \<Rightarrow> 'g \<Rightarrow> (price_record \<times> 'g) option" where
  "make_record E day_offset date base_price cat g =
    make_record_from E SALEYARDS STATES day_offset date base_price cat g"

text \<open>The f-string that builds one value tuple.\<close>

definition sql_value :: "price_record \<Rightarrow> string" where
  "sql_value r =
    ''('' @ [quote] @ category r @ [quote] @ '', '' @ [quote] @ saleyard r @ [quote] @ '', ''
      @ [quote] @ state r @ [quote] @ '', '' @ fmt4 (category_price r) @ '', ''
      @ [quote] @ date_str r @ [quote] @ '', '' @ [quote] @ source r @ [quote] @ '', true)''"

text \<open>
  What the script prints: a line of text, or one \<open>INSERT\<close> statement with its value
  tuples (three calls of \<open>print\<close>, spelled out by \<open>render\<close>).
\<close>

datatype printed = Line string | Insert "string list"

definition newline :: char where
  "newline = CHR 0x0A"

fun render :: "printed \<Rightarrow> string list" where
  "render (Line s) = [s]"
| "render (Insert vs) =
     [''INSERT INTO historical_market_prices (category, saleyard, state, price_per_kg, price_date, source, is_historical) VALUES'',
      join ('','' @ [newline]) vs,
      ''ON CONFLICT (category, saleyard, price_date) DO NOTHING;'' @ [newline]]"

fun inserts :: "printed list \<Rightarrow> string list list" where
  "inserts [] = []"
| "inserts (Line s # ps) = inserts ps"
| "inserts (Insert vs # ps) = vs # inserts ps"

definition batch_size :: nat where
  "batch_size = 500"

record 'g loop_state =
  current_batch :: "string list"
  total_records :: nat
  out :: "printed list"
  gen :: 'g

text \<open>A \<open>for\<close> loop whose body may raise.\<close>

fun for_each :: "('a \<Rightarrow> 's \<Rightarrow> 's option) \<Rightarrow> 'a list \<Rightarrow> 's \<Rightarrow> 's option" where
  "for_each body [] s = Some s"
| "for_each body (x # xs) s = (case body x s of None \<Rightarrow> None | Some s' \<Rightarrow> for_each body xs s')"

text \<open>\<open>range(n)\<close>.\<close>

definition range_upto :: "int \<Rightarrow> int list" where
  "range_upto n = [0..n - 1]"

text \<open>The body of the inner loop, for one category.\<close>

definition category_body ::
  "'g runtime \<Rightarrow> int \<Rightarrow> string \<Rightarrow> real \<Rightarrow> string \<Rightarrow> 'g loop_state \<Rightarrow> 'g loop_state option" where
  "category_body E day_offset date base_price cat s =
    (case make_record E day_offset date base_price cat (gen s) of
       None \<Rightarrow> None
     | Some (r, g') \<Rightarrow>
         let batch = current_batch s @ [sql_value r];
             total = total_records s + 1
         in if length batch \<ge> batch_size
            then Some (s\<lparr>current_batch := [], total_records := total,
                   out := out s @ [Insert batch]
                     @ (if total mod 5000 = 0
                        then [Line (''-- Progress: '' @ commas total @ '' records...'')]
                        else []),
                   gen := g'\<rparr>)
            else Some (s\<lparr>current_batch := batch, total_records := total, gen := g'\<rparr>))"

text \<open>The body of the outer loop, for one day.\<close>

definition day_body :: "'g runtime \<Rightarrow> int \<Rightarrow> 'g loop_state \<Rightarrow> 'g loop_state option" where
  "day_body E day_offset s =
    (case minus_days (END_DATE E) (TOTAL_DAYS E - day_offset - 1) of
       None \<Rightarrow> None
     | Some date \<Rightarrow>
         (case calculate_price E day_offset (gen s) of
            None \<Rightarrow> None
          | Some (base_price, g') \<Rightarrow>
              for_each (category_body E day_offset (strftime_ymd date) base_price) CATEGORIES
                (s\<lparr>gen := g'\<rparr>)))"

definition header :: "'g runtime \<Rightarrow> printed list" where
  "header E =
    [Line ''-- ============================================'',
     Line ''-- HISTORICAL MARKET PRICES (3 YEARS)'',
     Line ''-- ============================================'',
     Line (''-- Generated: '' @ now_iso E),
     Line (''-- Total records: '' @ str_int (TOTAL_DAYS E * int (length CATEGORIES))),
     Line (''-- ============================================'' @ [newline])]"

text \<open>The last line printed; the bytes after the dashes are those of the source text.\<close>

definition footer :: "nat \<Rightarrow> printed list" where
  "footer n =
    [Line ([newline] @ ''-- '' @ [CHR 0xC3, CHR 0xA2, CHR 0xC5, CHR 0x93, CHR 0xE2, CHR 0x80, CHR 0xA6]
       @ '' Complete: '' @ commas n @ '' total records''),
     Line ''-- Run this in Supabase SQL Editor'']"

text \<open>The whole script, from the generator's state at start to what it has printed.\<close>

definition main :: "'g runtime \<Rightarrow> 'g \<Rightarrow> printed list option" where
  "main E g =
    (case for_each (day_body E) (range_upto (TOTAL_DAYS E))
            \<lparr>current_batch = [], total_records = 0, out = header E, gen = g\<rparr> of
       None \<Rightarrow> None
     | Some s \<Rightarrow>
         Some (out s
           @ (if current_batch s \<noteq> [] then [Insert (current_batch s)] else [])
           @ footer (total_records s)))"

section \<open>The rows of a run\<close>

text \<open>
  The record that the loop body builds for one day offset and one category, from the
  date and the base price of the outer loop's body; \<open>None\<close> when one of the calls raises.
\<close>

definition row_at :: "'g runtime \<Rightarrow> 'g \<Rightarrow> int \<Rightarrow> string \<Rightarrow> price_record option" where
  "row_at E g day_offset cat =
    (case minus_days (END_DATE E) (TOTAL_DAYS E - day_offset - 1) of
       None \<Rightarrow> None
     | Some date \<Rightarrow>
         (case calculate_price E day_offset g of
            None \<Rightarrow> None
          | Some (base_price, g') \<Rightarrow>
              map_option fst (make_record E day_offset (strftime_ymd date) base_price cat g')))"

text \<open>The rows of one day, and of all days, in the order of the two loops.\<close>

definition day_rows :: "'g runtime \<Rightarrow> 'g \<Rightarrow> int \<Rightarrow> price_record list" where
  "day_rows E g day_offset = List.map_filter (row_at E g day_offset) CATEGORIES"

definition emitted_rows :: "'g runtime \<Rightarrow> 'g \<Rightarrow> price_record list" where
  "emitted_rows E g = concat (map (day_rows E g) (range_upto (TOTAL_DAYS E)))"

text \<open>
  The value tuples that a printed output holds, in the order printed, and those of one
  day among them: the inner loop appends one tuple for each entry of \<open>CATEGORIES\<close>.
\<close>

definition tuples :: "printed list \<Rightarrow> string list" where
  "tuples ps = concat (inserts ps)"

definition day_tuples :: "printed list \<Rightarrow> int \<Rightarrow> string list" where
  "day_tuples ps day_offset =
    take (length CATEGORIES) (drop (nat day_offset * length CATEGORIES) (tuples ps))"

text \<open>
  The invariant of both loops, for the value tuples \<open>vs\<close> built so far: the statements
  printed so far followed by the current batch hold exactly these tuples in order, every
  printed statement holds \<open>batch_size\<close> tuples, the current batch holds fewer, the
  counter counts the tuples, and the output still starts with the header.
\<close>

definition loop_inv :: "'g runtime \<Rightarrow> 'g loop_state \<Rightarrow> string list \<Rightarrow> bool" where
  "loop_inv E s vs =
    (concat (inserts (out s)) @ current_batch s = vs
     \<and> length (current_batch s) < batch_size
     \<and> list_all (\<lambda>b. length b = batch_size) (inserts (out s))
     \<and> total_records s = length vs
     \<and> (\<exists>body. out s = header E @ body))"

section \<open>The price formula in the specification's words\<close>

text \<open>
  The trend as five linear pieces of the progress, with boundaries at 0.2, 0.4, 0.6 and
  0.8; the seasonal, weekly and daily terms; and the clamp to the interval from 3.10 to
  3.50.
\<close>

definition spec_trend :: "real \<Rightarrow> real" where
  "spec_trend p =
    (if p < 0.2 then - 0.25 * p
     else if p < 0.4 then 0.20 - 1.25 * p
     else if p < 0.6 then p - 0.70
     else if p < 0.8 then 0.75 * p - 0.55
     else 0.5 * p - 0.35)"

definition spec_seasonal :: "int \<Rightarrow> real" where
  "spec_seasonal day_of_year = sin (real_of_int day_of_year / 365 * (2 * pi) - pi / 2) * 0.10"

definition spec_weekly :: "int \<Rightarrow> real" where
  "spec_weekly offset = sin (real_of_int ((offset div 7) mod 13) / 13 * (2 * pi)) * 0.08"

definition spec_daily :: "'g runtime \<Rightarrow> int \<Rightarrow> real" where
  "spec_daily E offset = - 0.03 + 0.06 * fst (rng_random E (rng_seed E offset))"

definition spec_clamp :: "real \<Rightarrow> real" where
  "spec_clamp x = (if x < 3.10 then 3.10 else if x > 3.50 then 3.50 else x)"

definition spec_price :: "'g runtime \<Rightarrow> int \<Rightarrow> int \<Rightarrow> real" where
  "spec_price E offset day_of_year =
    spec_clamp (BASE_PRICE * (1 + spec_trend (real_of_int offset / 1095)
      + spec_seasonal day_of_year + spec_weekly offset + spec_daily E offset))"

section \<open>A sample runtime\<close>

text \<open>
  A small generator, a clock reading (2026-11-04) and two hash functions, standing for
  two processes with different hash salts; they instantiate the theorems below.
\<close>

definition lcg :: "nat \<Rightarrow> nat" where
  "lcg g = (g * 1103515245 + 12345) mod 2147483648"

definition sample_hash_a :: "string \<Rightarrow> int" where
  "sample_hash_a s = sum_list (map of_char s)"

definition sample_hash_b :: "string \<Rightarrow> int" where
  "sample_hash_b s = sum_list (map of_char s) + 2"

definition sample_runtime :: "(string \<Rightarrow> int) \<Rightarrow> nat runtime" where
  "sample_runtime h =
    \<lparr>END_DATE = 739924, now_iso = ''2026-11-04T09:30:00.000000'', str_hash = h,
     rng_seed = (\<lambda>a. nat \<bar>a\<bar>),
     rng_random = (\<lambda>g. (real (lcg g mod 1000) / 1000, lcg g)),
     rng_randbelow = (\<lambda>n g. (lcg g div 65536 mod n, lcg g))\<rparr>"

text \<open>The same runtime with the clock read on 2022-12-31, the day before \<open>START_DATE\<close>.\<close>

definition early_runtime :: "nat runtime" where
  "early_runtime =
    (sample_runtime sample_hash_a)\<lparr>END_DATE := 738520, now_iso := ''2022-12-31T09:30:00.000000''\<rparr>"

section \<open>Facts about the model\<close>

lemma START_DATE_eq: "START_DATE = 738521"
  by (simp add: START_DATE_def ymd2ord_def days_before_year_def days_before_month_def
      DAYS_IN_MONTH_def is_leap_def)

text \<open>Both functions reseed the generator before they draw: the state they are given is never read.\<close>

lemma calculate_price_indep: "calculate_price E d g = calculate_price E d g'"
  unfolding calculate_price_def reseed_def by (rule refl)

lemma make_record_indep: "make_record E d date bp c g = make_record E d date bp c g'"
  unfolding make_record_def make_record_from_def reseed_def by (rule refl)

text \<open>Going back at most \<open>TOTAL_DAYS\<close> days from \<open>END_DATE\<close> stays within the range of \<open>datetime\<close>.\<close>

lemma minus_days_in_range:
  assumes "clock_ok E" "0 \<le> n" "n \<le> TOTAL_DAYS E"
  shows "minus_days (END_DATE E) n = Some (END_DATE E - n)"
  using assms
  by (auto simp: minus_days_def clock_ok_def TOTAL_DAYS_def START_DATE_eq MINORD_def MAXORD_def)

lemma clamp_bounds: "3.10 \<le> max 3.10 (min 3.50 (x::real)) \<and> max 3.10 (min 3.50 x) \<le> 3.50"
  by (simp add: max_def min_def)

lemma calculate_price_unfold:
  "calculate_price E d g =
    (case minus_days (END_DATE E) (TOTAL_DAYS E - d) of
       None \<Rightarrow> None
     | Some date \<Rightarrow>
         Some (max 3.10 (min 3.50 (BASE_PRICE * (1.0 + market_trend (real_of_int d / 1095.0)
                 + sin ((real_of_int (tm_yday date) / 365.0 * 2 * pi) - (pi / 2)) * 0.10
                 + sin (real_of_int (d div 7 mod 13) / 13.0 * 2 * pi) * 0.08
                 + fst (uniform E (- 0.03) 0.03 (reseed E d g))))),
               snd (uniform E (- 0.03) 0.03 (reseed E d g))))"
  unfolding calculate_price_def Let_def case_prod_beta by (rule refl)

lemma calculate_price_Some:
  assumes "clock_ok E" "0 \<le> d" "d < TOTAL_DAYS E"
  shows "\<exists>p g'. calculate_price E d g = Some (p, g') \<and> 3.10 \<le> p \<and> p \<le> 3.50"
proof -
  have "minus_days (END_DATE E) (TOTAL_DAYS E - d) = Some (END_DATE E - (TOTAL_DAYS E - d))"
    using assms by (intro minus_days_in_range) auto
  then show ?thesis
    unfolding calculate_price_unfold using clamp_bounds by simp
qed

lemma choice_Some:
  assumes "rng_ok E" "xs \<noteq> []"
  shows "\<exists>x g'. choice E xs g = Some (x, g') \<and> x \<in> set xs"
proof -
  have "fst (rng_randbelow E (length xs) g) < length xs"
    using assms by (simp add: rng_ok_def)
  then show ?thesis
    using assms(2) by (auto simp: choice_def split: prod.splits)
qed

lemma make_record_Some:
  assumes "rng_ok E"
  shows "\<exists>chosen st g'. chosen \<in> set SALEYARDS \<and> st \<in> set STATES \<and>
    make_record E d date bp c g =
      Some (\<lparr>category = c, saleyard = replace_quote chosen, state = st,
              category_price = bp * get_category_multiplier c, date_str = date,
              source = source_label d\<rparr>, g')"
proof -
  have ne: "SALEYARDS \<noteq> []" "STATES \<noteq> []"
    by (simp_all add: SALEYARDS_def STATES_def)
  obtain chosen g1 where c1: "choice E SALEYARDS (reseed E (d + str_hash E c) g) = Some (chosen, g1)"
    and m1: "chosen \<in> set SALEYARDS"
    using choice_Some [OF assms ne(1)] by blast
  obtain st g2 where c2: "choice E STATES g1 = Some (st, g2)" and m2: "st \<in> set STATES"
    using choice_Some [OF assms ne(2)] by blast
  show ?thesis
    using c1 c2 m1 m2 by (auto simp: make_record_def make_record_from_def Let_def)
qed

lemma row_at_Some:
  assumes "clock_ok E" "rng_ok E" "0 \<le> d" "d < TOTAL_DAYS E"
  shows "\<exists>bp g' chosen st. calculate_price E d g = Some (bp, g') \<and>
    3.10 \<le> bp \<and> bp \<le> 3.50 \<and> chosen \<in> set SALEYARDS \<and> st \<in> set STATES \<and>
    row_at E g d c =
      Some \<lparr>category = c, saleyard = replace_quote chosen, state = st,
             category_price = bp * get_category_multiplier c,
             date_str = strftime_ymd (END_DATE E - (TOTAL_DAYS E - d - 1)),
             source = source_label d\<rparr>"
proof -
  have md: "minus_days (END_DATE E) (TOTAL_DAYS E - d - 1) = Some (END_DATE E - (TOTAL_DAYS E - d - 1))"
    using assms by (intro minus_days_in_range) auto
  obtain bp g' where cp: "calculate_price E d g = Some (bp, g')" and b: "3.10 \<le> bp" "bp \<le> 3.50"
    using calculate_price_Some [OF assms(1,3,4)] by blast
  obtain chosen st g'' where m: "chosen \<in> set SALEYARDS" "st \<in> set STATES"
    and mr: "make_record E d (strftime_ymd (END_DATE E - (TOTAL_DAYS E - d - 1))) bp c g' =
      Some (\<lparr>category = c, saleyard = replace_quote chosen, state = st,
              category_price = bp * get_category_multiplier c,
              date_str = strftime_ymd (END_DATE E - (TOTAL_DAYS E - d - 1)),
              source = source_label d\<rparr>, g'')"
    using make_record_Some [OF assms(2)] by blast
  show ?thesis
    using md cp b m mr by (auto simp: row_at_def)
qed

lemma sample_rng_ok: "rng_ok (sample_runtime h)"
  by (simp add: rng_ok_def sample_runtime_def)

lemma sample_clock_ok: "clock_ok (sample_runtime h)"
  by (simp add: clock_ok_def sample_runtime_def MINORD_def MAXORD_def)

lemma sample_TOTAL_DAYS: "TOTAL_DAYS (sample_runtime h) = 1095"
  by (simp add: TOTAL_DAYS_def sample_runtime_def START_DATE_eq)

lemma market_trend_spec: "market_trend p = spec_trend p"
  by (simp add: market_trend_def spec_trend_def field_simps)

lemma clamp_spec: "max 3.10 (min 3.50 x) = spec_clamp (x::real)"
  by (simp add: spec_clamp_def max_def min_def)

lemma uniform_daily_spec: "fst (uniform E (- 0.03) 0.03 (reseed E d g)) = spec_daily E d"
  by (simp add: uniform_def reseed_def spec_daily_def case_prod_beta)

lemma spec_daily_bounds:
  assumes "rng_ok E"
  shows "- 0.03 \<le> spec_daily E d \<and> spec_daily E d \<le> 0.03"
proof -
  have "0 \<le> fst (rng_random E (rng_seed E d))" "fst (rng_random E (rng_seed E d)) < 1"
    using assms by (simp_all add: rng_ok_def)
  then show ?thesis
    by (simp add: spec_daily_def)
qed

lemma calculate_price_spec:
  "map_option fst (calculate_price E d g)
    = map_option (\<lambda>date. spec_price E d (tm_yday date))
        (minus_days (END_DATE E) (TOTAL_DAYS E - d))"
proof (cases "minus_days (END_DATE E) (TOTAL_DAYS E - d)")
  case None
  then show ?thesis
    by (simp add: calculate_price_unfold)
next
  case (Some date)
  have "max 3.10 (min 3.50 (BASE_PRICE * (1.0 + market_trend (real_of_int d / 1095.0)
                 + sin ((real_of_int (tm_yday date) / 365.0 * 2 * pi) - (pi / 2)) * 0.10
                 + sin (real_of_int (d div 7 mod 13) / 13.0 * 2 * pi) * 0.08
                 + fst (uniform E (- 0.03) 0.03 (reseed E d g)))))
      = spec_price E d (tm_yday date)"
    unfolding clamp_spec market_trend_spec uniform_daily_spec spec_price_def spec_seasonal_def
      spec_weekly_def
    by (simp add: mult.assoc)
  with Some show ?thesis
    by (simp add: calculate_price_unfold)
qed

lemma sample_END_DATE: "END_DATE (sample_runtime h) = 739924"
  by (simp add: sample_runtime_def)



lemma replace_quote_id: "quote \<notin> set s \<Longrightarrow> replace_quote s = s"
  by (induction s) auto

lemma no_quote_SALEYARDS: "x \<in> set SALEYARDS \<Longrightarrow> quote \<notin> set x"
  by (auto simp: SALEYARDS_def quote_def)

lemma no_quote_STATES: "x \<in> set STATES \<Longrightarrow> quote \<notin> set x"
  by (auto simp: STATES_def quote_def)

lemma no_quote_CATEGORIES: "x \<in> set CATEGORIES \<Longrightarrow> quote \<notin> set x"
  by (auto simp: CATEGORIES_def quote_def)

lemma choice_explicit:
  assumes "rng_ok E" "xs \<noteq> []"
  shows "choice E xs g
    = Some (xs ! fst (rng_randbelow E (length xs) g), snd (rng_randbelow E (length xs) g))"
proof -
  have "fst (rng_randbelow E (length xs) g) < length xs"
    using assms by (simp add: rng_ok_def)
  then show ?thesis
    using assms(2) by (simp add: choice_def case_prod_beta)
qed

lemma row_at_saleyard_state:
  assumes "clock_ok E" "rng_ok E" "0 \<le> d" "d < TOTAL_DAYS E"
  shows "map_option (\<lambda>r. (saleyard r, state r)) (row_at E g d c)
    = Some (replace_quote (SALEYARDS ! fst (rng_randbelow E 5 (rng_seed E (d + str_hash E c)))),
            STATES ! fst (rng_randbelow E 5 (snd (rng_randbelow E 5 (rng_seed E (d + str_hash E c))))))"
proof -
  have md: "minus_days (END_DATE E) (TOTAL_DAYS E - d - 1) = Some (END_DATE E - (TOTAL_DAYS E - d - 1))"
    using assms by (intro minus_days_in_range) auto
  obtain bp g' where cp: "calculate_price E d g = Some (bp, g')"
    using calculate_price_Some [OF assms(1,3,4)] by blast
  have ne: "SALEYARDS \<noteq> []" "STATES \<noteq> []" and len: "length SALEYARDS = 5" "length STATES = 5"
    by (simp_all add: SALEYARDS_def STATES_def)
  show ?thesis
    using md cp len
    by (simp add: row_at_def make_record_def make_record_from_def Let_def choice_explicit [OF assms(2) ne(1)]
        choice_explicit [OF assms(2) ne(2)] reseed_def)
qed

lemma sample_fields:
  "rng_seed (sample_runtime h) a = nat \<bar>a\<bar>"
  "rng_randbelow (sample_runtime h) n g = (lcg g div 65536 mod n, lcg g)"
  "str_hash (sample_runtime h) = h"
  by (simp_all add: sample_runtime_def)

lemma sample_hash_feeder_steer:
  "sample_hash_a ''Feeder Steer'' = 1134" "sample_hash_b ''Feeder Steer'' = 1136"
  by (simp_all add: sample_hash_a_def sample_hash_b_def)

lemma lcg_values:
  "lcg 1134 = 1550817039" "lcg 1550817039 = 2364316"
  "lcg 1136 = 1610363881" "lcg 1610363881 = 90785902"
  by (simp_all add: lcg_def)

lemma sample_choices:
  "SALEYARDS ! 3 = ''Ballarat Regional Livestock Exchange''" "SALEYARDS ! 2 = ''Roma Saleyards''"
  "STATES ! 1 = ''VIC''" "STATES ! 0 = ''NSW''"
  by (simp_all add: SALEYARDS_def STATES_def)

lemma replace_quote_sample:
  "replace_quote ''Ballarat Regional Livestock Exchange'' = ''Ballarat Regional Livestock Exchange''"
  "replace_quote ''Roma Saleyards'' = ''Roma Saleyards''"
  by (rule replace_quote_id, rule no_quote_SALEYARDS, simp add: SALEYARDS_def)+

lemma sample_draws:
  "fst (rng_randbelow (sample_runtime sample_hash_a) 5
      (rng_seed (sample_runtime sample_hash_a) (0 + str_hash (sample_runtime sample_hash_a) ''Feeder Steer''))) = 3"
  "fst (rng_randbelow (sample_runtime sample_hash_a) 5 (snd (rng_randbelow (sample_runtime sample_hash_a) 5
      (rng_seed (sample_runtime sample_hash_a) (0 + str_hash (sample_runtime sample_hash_a) ''Feeder Steer''))))) = 1"
  "fst (rng_randbelow (sample_runtime sample_hash_b) 5
      (rng_seed (sample_runtime sample_hash_b) (0 + str_hash (sample_runtime sample_hash_b) ''Feeder Steer''))) = 2"
  "fst (rng_randbelow (sample_runtime sample_hash_b) 5 (snd (rng_randbelow (sample_runtime sample_hash_b) 5
      (rng_seed (sample_runtime sample_hash_b) (0 + str_hash (sample_runtime sample_hash_b) ''Feeder Steer''))))) = 0"
  by (simp_all add: sample_fields sample_hash_feeder_steer lcg_values)

lemma digit_char_in: "digit_char d \<in> set ''0123456789''"
  unfolding digit_char_def by (rule nth_mem) simp

lemma no_quote_digit: "quote \<noteq> digit_char d"
  using digit_char_in [of d] by (auto simp: quote_def)

lemma no_quote_decimal: "quote \<notin> set (decimal n)"
proof (induction n rule: decimal.induct)
  case (1 n)
  then show ?case
    by (subst decimal.simps) (auto simp: no_quote_digit)
qed

lemma quote_literals:
  "quote \<noteq> CHR ''0''" "quote \<notin> set ''-''" "quote \<notin> set ''.''"
  "quote \<notin> set ''(''" "quote \<notin> set '', ''" "quote \<notin> set '', true)''"
  "quote \<notin> set ''Saleyard''" "quote \<notin> set ''State Indicator''"
  "quote \<notin> set ''National Benchmark''"
  by (simp_all add: quote_def)

lemma no_quote_zfill: "quote \<notin> set (zfill w n)"
  using quote_literals(1) by (auto simp: zfill_def no_quote_decimal)

lemma no_quote_fmt4: "quote \<notin> set (fmt4 x)"
  using quote_literals(2,3) by (simp add: fmt4_def Let_def no_quote_decimal no_quote_zfill)

lemma no_quote_strftime: "quote \<notin> set (strftime_ymd d)"
  using quote_literals(2)
  by (simp add: strftime_ymd_def no_quote_zfill split: prod.splits)

lemma no_quote_source_label: "quote \<notin> set (source_label d)"
  using quote_literals(7,8,9) by (simp add: source_label_def)

lemma count_list_no_quote: "quote \<notin> set s \<Longrightarrow> count_list s quote = 0"
  by (simp add: count_list_0_iff)

lemma count_quote_literals:
  "count_list ''('' quote = 0" "count_list '', '' quote = 0" "count_list '', true)'' quote = 0"
  "count_list [quote] quote = 1"
  by (simp_all add: quote_def)

lemma count_quote_sql_value:
  assumes "quote \<notin> set (category r)" "quote \<notin> set (saleyard r)" "quote \<notin> set (state r)"
    "quote \<notin> set (date_str r)" "quote \<notin> set (source r)"
  shows "count_list (sql_value r) quote = 10"
proof -
  have "count_list (sql_value r) quote = 1 + 1 + 1 + 1 + 1 + 1 + 1 + 1 + 1 + 1"
    unfolding sql_value_def
    by (simp only: count_list_append count_quote_literals count_list_no_quote [OF assms(1)]
        count_list_no_quote [OF assms(2)] count_list_no_quote [OF assms(3)]
        count_list_no_quote [OF assms(4)] count_list_no_quote [OF assms(5)]
        count_list_no_quote [OF no_quote_fmt4] add_0_left add_0_right add.assoc)
  then show ?thesis
    by simp
qed

lemma length_CATEGORIES: "length CATEGORIES = 49"
  by (simp add: CATEGORIES_def)

lemma count_breeder: "count_list CATEGORIES ''Breeder'' = 2"
  by (simp add: CATEGORIES_def)

lemma distinct_categories: "length (remdups CATEGORIES) = 48"
  by (simp add: CATEGORIES_def)

lemma breeder_positions: "CATEGORIES ! 10 = ''Breeder''" "CATEGORIES ! 29 = ''Breeder''"
  by (simp_all add: CATEGORIES_def)

lemma row_at_indep: "row_at E g d c = row_at E g' d c"
  unfolding row_at_def calculate_price_indep [of E d g g']
  by (auto split: option.splits simp: make_record_indep [of E d _ _ c _ g'])

lemma for_each_invariant:
  assumes "Q s vs"
    and "\<And>x s vs. x \<in> set xs \<Longrightarrow> Q s vs \<Longrightarrow> \<exists>s'. body x s = Some s' \<and> Q s' (vs @ f x)"
  shows "\<exists>s'. for_each body xs s = Some s' \<and> Q s' (vs @ concat (map f xs))"
  using assms
proof (induction xs arbitrary: s vs)
  case Nil
  then show ?case by simp
next
  case (Cons x xs)
  obtain s1 where s1: "body x s = Some s1" "Q s1 (vs @ f x)"
    using Cons.prems(2) [of x s vs] Cons.prems(1) by auto
  have "\<exists>s'. for_each body xs s1 = Some s' \<and> Q s' ((vs @ f x) @ concat (map f xs))"
    using s1(2) Cons.prems(2) by (intro Cons.IH) auto
  then show ?case
    using s1(1) by simp
qed

lemma inserts_append: "inserts (ps @ qs) = inserts ps @ inserts qs"
  by (induction ps rule: inserts.induct) auto

lemma inserts_header: "inserts (header E) = []"
  by (simp add: header_def)

lemma inserts_footer: "inserts (footer n) = []"
  by (simp add: footer_def)

lemma loop_inv_gen: "loop_inv E (s\<lparr>gen := g\<rparr>) vs = loop_inv E s vs"
  by (simp add: loop_inv_def)

lemma loop_inv_init:
  "loop_inv E \<lparr>current_batch = [], total_records = 0, out = header E, gen = g\<rparr> []"
  by (simp add: loop_inv_def inserts_header batch_size_def)

lemma loop_inv_step:
  assumes "loop_inv E s vs"
  shows "loop_inv E
    (let batch = current_batch s @ [v]; total = total_records s + 1
     in if length batch \<ge> batch_size
        then s\<lparr>current_batch := [], total_records := total,
               out := out s @ [Insert batch]
                 @ (if total mod 5000 = 0
                    then [Line (''-- Progress: '' @ commas total @ '' records...'')]
                    else []),
               gen := g'\<rparr>
        else s\<lparr>current_batch := batch, total_records := total, gen := g'\<rparr>)
    (vs @ [v])"
proof (cases "length (current_batch s @ [v]) \<ge> batch_size")
  case True
  with assms have len: "length (current_batch s @ [v]) = batch_size"
    by (simp add: loop_inv_def)
  obtain body where "out s = header E @ body"
    using assms by (auto simp: loop_inv_def)
  then have "\<exists>body'. out s @ [Insert (current_batch s @ [v])]
      @ (if (total_records s + 1) mod 5000 = 0
         then [Line (''-- Progress: '' @ commas (total_records s + 1) @ '' records...'')]
         else []) = header E @ body'"
    by simp
  with True len assms show ?thesis
    unfolding loop_inv_def Let_def
    by (simp add: inserts_append batch_size_def)
next
  case False
  with assms show ?thesis
    unfolding loop_inv_def Let_def by simp
qed

text \<open>One pass of the inner loop's body appends the row's value tuple.\<close>

lemma category_body_Some:
  assumes "make_record E d date bp c (gen s) = Some (r, g')"
  shows "category_body E d date bp c s = Some
    (let batch = current_batch s @ [sql_value r]; total = total_records s + 1
     in if length batch \<ge> batch_size
        then s\<lparr>current_batch := [], total_records := total,
               out := out s @ [Insert batch]
                 @ (if total mod 5000 = 0
                    then [Line (''-- Progress: '' @ commas total @ '' records...'')]
                    else []),
               gen := g'\<rparr>
        else s\<lparr>current_batch := batch, total_records := total, gen := g'\<rparr>)"
  unfolding category_body_def assms Let_def by simp

lemma category_body_step:
  assumes mr: "make_record E d date bp c (gen s) = Some (r, g')" and inv: "loop_inv E s vs"
  shows "\<exists>s'. category_body E d date bp c s = Some s' \<and> loop_inv E s' (vs @ [sql_value r])"
  unfolding category_body_Some [OF mr]
  using loop_inv_step [OF inv, of "sql_value r" g'] by blast

lemma row_values_day:
  assumes "clock_ok E" "rng_ok E" "0 \<le> d" "d < TOTAL_DAYS E"
  shows "\<exists>bp g1. calculate_price E d g = Some (bp, g1)
    \<and> (\<forall>c g2. \<exists>r g3. row_at E g0 d c = Some r
          \<and> make_record E d (strftime_ymd (END_DATE E - (TOTAL_DAYS E - d - 1))) bp c g2 = Some (r, g3))"
proof -
  have md: "minus_days (END_DATE E) (TOTAL_DAYS E - d - 1) = Some (END_DATE E - (TOTAL_DAYS E - d - 1))"
    using assms by (intro minus_days_in_range) auto
  obtain bp g1 where cp: "calculate_price E d g = Some (bp, g1)"
    using calculate_price_Some [OF assms(1,3,4)] by blast
  then obtain g1' where cp0: "calculate_price E d g0 = Some (bp, g1')"
    using calculate_price_indep [of E d g g0] by auto
  have "\<exists>r g3. row_at E g0 d c = Some r
      \<and> make_record E d (strftime_ymd (END_DATE E - (TOTAL_DAYS E - d - 1))) bp c g2 = Some (r, g3)"
    for c g2
  proof -
    obtain r g3 where mr:
      "make_record E d (strftime_ymd (END_DATE E - (TOTAL_DAYS E - d - 1))) bp c g2 = Some (r, g3)"
      using make_record_Some [OF assms(2)] by blast
    then have "make_record E d (strftime_ymd (END_DATE E - (TOTAL_DAYS E - d - 1))) bp c g1'
        = Some (r, g3)"
      using make_record_indep [of E d _ bp c g1' g2] by simp
    then have "row_at E g0 d c = Some r"
      using md cp0 by (simp add: row_at_def)
    with mr show ?thesis by blast
  qed
  with cp show ?thesis by blast
qed

lemma map_filter_all_Some:
  assumes "\<And>x. x \<in> set xs \<Longrightarrow> \<exists>y. f x = Some y"
  shows "List.map_filter f xs = map (\<lambda>x. the (f x)) xs"
  using assms
proof (induction xs)
  case Nil
  then show ?case by (simp add: List.map_filter_simps)
next
  case (Cons x xs)
  then obtain y where "f x = Some y" by auto
  with Cons show ?case
    by (simp add: List.map_filter_simps)
qed

lemma concat_map_singleton_list: "concat (map (\<lambda>c. [h c]) xs) = map h xs"
  by (induction xs) simp_all

lemma day_rows_eq:
  assumes "clock_ok E" "rng_ok E" "0 \<le> d" "d < TOTAL_DAYS E"
  shows "day_rows E g d = map (\<lambda>c. the (row_at E g d c)) CATEGORIES"
  unfolding day_rows_def
proof (rule map_filter_all_Some)
  fix c
  show "\<exists>y. row_at E g d c = Some y"
    using row_at_Some [OF assms, of g c] by blast
qed

text \<open>One pass of the outer loop's body appends the value tuples of the day's rows.\<close>

lemma day_body_step:
  assumes "clock_ok E" "rng_ok E" "0 \<le> d" "d < TOTAL_DAYS E" and inv: "loop_inv E s vs"
  shows "\<exists>s'. day_body E d s = Some s' \<and> loop_inv E s' (vs @ map sql_value (day_rows E g0 d))"
proof -
  let ?date = "strftime_ymd (END_DATE E - (TOTAL_DAYS E - d - 1))"
  have md: "minus_days (END_DATE E) (TOTAL_DAYS E - d - 1) = Some (END_DATE E - (TOTAL_DAYS E - d - 1))"
    using assms by (intro minus_days_in_range) auto
  obtain bp g1 where cp: "calculate_price E d (gen s) = Some (bp, g1)"
    and rows: "\<And>c g2. \<exists>r g3. row_at E g0 d c = Some r \<and> make_record E d ?date bp c g2 = Some (r, g3)"
    using row_values_day [OF assms(1-4), of "gen s" g0] by blast
  have step: "\<exists>s''. category_body E d ?date bp c s' = Some s''
      \<and> loop_inv E s'' (ws @ [sql_value (the (row_at E g0 d c))])"
    if "loop_inv E s' ws" for c s' ws
  proof -
    obtain r g3 where "row_at E g0 d c = Some r" "make_record E d ?date bp c (gen s') = Some (r, g3)"
      using rows [of c "gen s'"] by blast
    with category_body_step [OF this(2) that] show ?thesis by simp
  qed
  have "\<exists>s'. for_each (category_body E d ?date bp) CATEGORIES (s\<lparr>gen := g1\<rparr>) = Some s'
      \<and> loop_inv E s' (vs @ concat (map (\<lambda>c. [sql_value (the (row_at E g0 d c))]) CATEGORIES))"
    using inv step by (intro for_each_invariant) (simp_all add: loop_inv_gen)
  moreover have "concat (map (\<lambda>c. [sql_value (the (row_at E g0 d c))]) CATEGORIES)
      = map sql_value (day_rows E g0 d)"
    unfolding day_rows_eq [OF assms(1-4)] by (simp add: concat_map_singleton_list)
  ultimately show ?thesis
    using md cp by (simp add: day_body_def)
qed

lemma set_range_upto: "d \<in> set (range_upto n) \<longleftrightarrow> 0 \<le> d \<and> d < n"
  by (auto simp: range_upto_def)

lemma length_range_upto: "length (range_upto n) = nat n"
  by (simp add: range_upto_def)

lemma length_concat_const:
  assumes "\<And>x. x \<in> set xs \<Longrightarrow> length (f x) = k"
  shows "length (concat (map f xs)) = k * length xs"
  using assms by (induction xs) simp_all

lemma length_day_rows:
  assumes "clock_ok E" "rng_ok E" "0 \<le> d" "d < TOTAL_DAYS E"
  shows "length (day_rows E g d) = 49"
  by (simp add: day_rows_eq [OF assms] length_CATEGORIES)

lemma length_emitted_rows:
  assumes "clock_ok E" "rng_ok E"
  shows "length (emitted_rows E g) = 49 * nat (TOTAL_DAYS E)"
  unfolding emitted_rows_def
  using length_concat_const [of "range_upto (TOTAL_DAYS E)" "day_rows E g" 49]
    length_day_rows [OF assms]
  by (simp add: set_range_upto length_range_upto)

text \<open>The two loops run to their end, and keep the invariant for the rows of the run.\<close>

lemma loops_run:
  assumes "clock_ok E" "rng_ok E"
  shows "\<exists>s. for_each (day_body E) (range_upto (TOTAL_DAYS E))
        \<lparr>current_batch = [], total_records = 0, out = header E, gen = g\<rparr> = Some s
      \<and> loop_inv E s (map sql_value (emitted_rows E g0))"
proof -
  have "\<exists>s. for_each (day_body E) (range_upto (TOTAL_DAYS E))
        \<lparr>current_batch = [], total_records = 0, out = header E, gen = g\<rparr> = Some s
      \<and> loop_inv E s ([] @ concat (map (\<lambda>d. map sql_value (day_rows E g0 d))
          (range_upto (TOTAL_DAYS E))))"
  proof (rule for_each_invariant [where Q = "loop_inv E"])
    show "loop_inv E \<lparr>current_batch = [], total_records = 0, out = header E, gen = g\<rparr> []"
      by (rule loop_inv_init)
  next
    fix d s vs
    assume "d \<in> set (range_upto (TOTAL_DAYS E))" and "loop_inv E s vs"
    then show "\<exists>s'. day_body E d s = Some s' \<and> loop_inv E s' (vs @ map sql_value (day_rows E g0 d))"
      using day_body_step [OF assms, of d s vs g0] by (simp add: set_range_upto)
  qed
  moreover have "concat (map (\<lambda>d. map sql_value (day_rows E g0 d)) (range_upto (TOTAL_DAYS E)))
      = map sql_value (emitted_rows E g0)"
    by (simp add: emitted_rows_def map_concat comp_def)
  ultimately show ?thesis
    by simp
qed

text \<open>What the script prints.\<close>

lemma main_output:
  assumes "clock_ok E" "rng_ok E"
  shows "\<exists>body. main E g
        = Some (header E @ body @ footer (length (emitted_rows E g)))
      \<and> concat (inserts body) = map sql_value (emitted_rows E g)
      \<and> list_all (\<lambda>b. b \<noteq> [] \<and> length b \<le> batch_size) (inserts body)"
proof -
  obtain s where run: "for_each (day_body E) (range_upto (TOTAL_DAYS E))
        \<lparr>current_batch = [], total_records = 0, out = header E, gen = g\<rparr> = Some s"
    and inv: "loop_inv E s (map sql_value (emitted_rows E g))"
    using loops_run [OF assms, of g g] by blast
  obtain body where body: "out s = header E @ body"
    using inv by (auto simp: loop_inv_def)
  let ?last = "if current_batch s \<noteq> [] then [Insert (current_batch s)] else []"
  have ins: "inserts (out s) = inserts body"
    by (simp add: body inserts_append inserts_header)
  have full: "list_all (\<lambda>b. length b = batch_size) (inserts body)"
    and cur: "length (current_batch s) < batch_size"
    and cat: "concat (inserts body) @ current_batch s = map sql_value (emitted_rows E g)"
    and tot: "total_records s = length (emitted_rows E g)"
    using inv by (simp_all add: loop_inv_def ins)
  have "main E g = Some (header E @ (body @ ?last) @ footer (length (emitted_rows E g)))"
    by (simp add: main_def run body tot)
  moreover have "concat (inserts (body @ ?last)) = map sql_value (emitted_rows E g)"
    using cat by (cases "current_batch s = []") (simp_all add: inserts_append)
  moreover have "list_all (\<lambda>b. b \<noteq> [] \<and> length b \<le> batch_size) (inserts (body @ ?last))"
    using full cur by (auto simp: inserts_append list_all_iff batch_size_def)
  ultimately show ?thesis
    by blast
qed

lemma row_at_category:
  assumes "clock_ok E" "rng_ok E" "0 \<le> d" "d < TOTAL_DAYS E"
  shows "category (the (row_at E g d c)) = c"
  using row_at_Some [OF assms, of g c] by force

text \<open>A clock before \<open>START_DATE\<close> makes \<open>TOTAL_DAYS\<close> negative, and \<open>range\<close> empty.\<close>

lemma sample_early:
  "clock_ok early_runtime" "rng_ok early_runtime" "TOTAL_DAYS early_runtime = - 1"
  by (simp_all add: early_runtime_def clock_ok_def rng_ok_def sample_runtime_def MINORD_def
      MAXORD_def TOTAL_DAYS_def START_DATE_eq)

lemma range_upto_empty: "n \<le> 0 \<Longrightarrow> range_upto n = []"
  by (simp add: range_upto_def)

lemma length_emitted_rows_max:
  assumes "clock_ok E" "rng_ok E"
  shows "int (length (emitted_rows E g)) = max 0 (TOTAL_DAYS E) * int (length CATEGORIES)"
  by (simp add: length_emitted_rows [OF assms] length_CATEGORIES max_def)

lemma str_int_m49: "str_int (- 49) = ''-49''"
  by (simp add: str_int_def decimal.simps digit_char_def)

text \<open>The daily draw does not read the state of the generator it is given.\<close>

lemma daily_draw_indep: "daily_draw E d g1 = daily_draw E d g2"
  unfolding daily_draw_def reseed_def by (rule refl)

lemma daily_draw_same_library:
  assumes "rng_seed E' = rng_seed E" "rng_random E' = rng_random E"
  shows "daily_draw E' d g1 = daily_draw E d g2"
  unfolding daily_draw_def reseed_def uniform_def assms by (rule refl)

lemma daily_draw_bounds:
  assumes "rng_ok E"
  shows "- 0.03 \<le> fst (daily_draw E d g) \<and> fst (daily_draw E d g) \<le> 0.03"
proof -
  let ?r = "fst (rng_random E (rng_seed E d))"
  have "0 \<le> ?r" "?r < 1"
    using assms by (simp_all add: rng_ok_def)
  then show ?thesis
    by (simp add: daily_draw_def uniform_def reseed_def case_prod_beta)
qed

lemma calculate_price_daily_draw:
  "calculate_price E d g =
    (case minus_days (END_DATE E) (TOTAL_DAYS E - d) of
       None \<Rightarrow> None
     | Some date \<Rightarrow>
         Some (max 3.10 (min 3.50 (BASE_PRICE * (1.0 + market_trend (real_of_int d / 1095.0)
                 + sin ((real_of_int (tm_yday date) / 365.0 * 2 * pi) - (pi / 2)) * 0.10
                 + sin (real_of_int (d div 7 mod 13) / 13.0 * 2 * pi) * 0.08
                 + fst (daily_draw E d g)))),
               snd (daily_draw E d g)))"
  unfolding calculate_price_unfold daily_draw_def by (rule refl)

lemma sample_same_library:
  "rng_seed (sample_runtime h) = rng_seed (sample_runtime h')"
  "rng_random (sample_runtime h) = rng_random (sample_runtime h')"
  by (simp_all add: sample_runtime_def)

lemma sample_daily_draw: "daily_draw (sample_runtime h) 5 g = (- 0.01356, 1222621274)"
  by (simp add: daily_draw_def uniform_def reseed_def sample_runtime_def lcg_def)

text \<open>The value tuples of one day among those printed.\<close>

lemma take_drop_concat_const:
  assumes "\<And>x. x \<in> set xss \<Longrightarrow> length x = k" "i < length xss"
  shows "take k (drop (i * k) (concat xss)) = xss ! i"
  using assms
proof (induction xss arbitrary: i)
  case Nil
  then show ?case by simp
next
  case (Cons x xss)
  show ?case
  proof (cases i)
    case 0
    then show ?thesis using Cons.prems(1) [of x] by simp
  next
    case (Suc j)
    have "length x = k" using Cons.prems(1) [of x] by simp
    moreover have "take k (drop (j * k) (concat xss)) = xss ! j"
      using Cons.prems Suc by (intro Cons.IH) auto
    ultimately show ?thesis
      using Suc by (simp add: add.commute)
  qed
qed

lemma range_upto_nth: "0 \<le> d \<Longrightarrow> d < n \<Longrightarrow> range_upto n ! nat d = d"
  by (simp add: range_upto_def)

text \<open>What the script prints, in terms of its value tuples.\<close>

lemma main_tuples:
  assumes "clock_ok E" "rng_ok E"
  shows "\<exists>body. main E g = Some (header E @ body @ footer (nat (TOTAL_DAYS E) * 49))
      \<and> tuples (header E @ body @ footer (nat (TOTAL_DAYS E) * 49))
          = map sql_value (emitted_rows E g)"
proof -
  obtain body where m: "main E g = Some (header E @ body @ footer (length (emitted_rows E g)))"
    and c: "concat (inserts body) = map sql_value (emitted_rows E g)"
    using main_output [OF assms, of g] by blast
  have n: "length (emitted_rows E g) = nat (TOTAL_DAYS E) * 49"
    by (simp add: length_emitted_rows [OF assms])
  show ?thesis
    using m c unfolding n
    by (auto simp: tuples_def inserts_append inserts_header inserts_footer)
qed

lemma day_tuples_eq:
  assumes "clock_ok E" "rng_ok E" "0 \<le> d" "d < TOTAL_DAYS E"
    and "tuples ps = map sql_value (emitted_rows E g)"
  shows "day_tuples ps d = map (\<lambda>c. sql_value (the (row_at E g d c))) CATEGORIES"
proof -
  let ?xss = "map (\<lambda>d. map sql_value (day_rows E g d)) (range_upto (TOTAL_DAYS E))"
  have t: "tuples ps = concat ?xss"
    by (simp add: assms(5) emitted_rows_def map_concat comp_def)
  have len: "length x = 49" if "x \<in> set ?xss" for x
    using that length_day_rows [OF assms(1,2)] by (auto simp: set_range_upto)
  have i: "nat d < length ?xss"
    using assms(3,4) by (simp add: length_range_upto)
  have "take 49 (drop (nat d * 49) (concat ?xss)) = ?xss ! nat d"
    using len i by (rule take_drop_concat_const)
  also have "\<dots> = map sql_value (day_rows E g d)"
    using assms(3,4) by (simp add: length_range_upto range_upto_nth)
  also have "\<dots> = map (\<lambda>c. sql_value (the (row_at E g d c))) CATEGORIES"
    by (simp add: day_rows_eq [OF assms(1-4)])
  finally show ?thesis
    by (simp add: day_tuples_def t length_CATEGORIES)
qed

text \<open>The value tuples of two rows with different categories differ.\<close>

lemma takeWhile_quote: "quote \<notin> set s \<Longrightarrow> takeWhile (\<lambda>c. c \<noteq> quote) (s @ quote # t) = s"
  by (induction s) auto

lemma sql_value_category:
  assumes "quote \<notin> set (category r)"
  shows "takeWhile (\<lambda>c. c \<noteq> quote) (drop 2 (sql_value r)) = category r"
proof -
  have "\<exists>t. drop 2 (sql_value r) = category r @ quote # t"
    by (simp add: sql_value_def)
  then show ?thesis
    using takeWhile_quote [OF assms] by auto
qed

lemma sql_value_category_inj:
  assumes "sql_value r1 = sql_value r2" "quote \<notin> set (category r1)" "quote \<notin> set (category r2)"
  shows "category r1 = category r2"
  using sql_value_category [OF assms(2)] sql_value_category [OF assms(3)] assms(1) by simp

lemma count_list_map_at:
  assumes "\<And>x. x \<in> set xs \<Longrightarrow> f x = f b \<Longrightarrow> x = b"
  shows "count_list (map f xs) (f b) = count_list xs b"
  using assms by (induction xs) auto

lemma length_remdups_map:
  assumes "inj_on f (set xs)"
  shows "length (remdups (map f xs)) = length (remdups xs)"
  using assms by (simp add: length_remdups_card_conv card_image)

lemma row_tuple_inj:
  assumes "clock_ok E" "rng_ok E" "0 \<le> d" "d < TOTAL_DAYS E"
    and "c1 \<in> set CATEGORIES" "c2 \<in> set CATEGORIES"
    and "sql_value (the (row_at E g d c1)) = sql_value (the (row_at E g d c2))"
  shows "c1 = c2"
proof -
  have "category (the (row_at E g d c1)) = category (the (row_at E g d c2))"
    using assms(5,6)
    by (intro sql_value_category_inj [OF assms(7)])
      (simp_all add: row_at_category [OF assms(1-4)] no_quote_CATEGORIES)
  then show ?thesis
    by (simp add: row_at_category [OF assms(1-4)])
qed

text \<open>The two tuples of \<open>Breeder\<close> among the 49 of a day.\<close>

lemma breeder_day:
  assumes "clock_ok E" "rng_ok E" "0 \<le> day_offset" "day_offset < TOTAL_DAYS E"
    and day: "day_tuples printed day_offset = map (\<lambda>c. sql_value (the (row_at E g day_offset c))) CATEGORIES"
    and r: "row_at E g day_offset ''Breeder'' = Some r"
  shows "length (day_tuples printed day_offset) = 49"
    "day_tuples printed day_offset ! 10 = sql_value r"
    "day_tuples printed day_offset ! 29 = sql_value r"
    "count_list (day_tuples printed day_offset) (sql_value r) = 2"
    "length (remdups (day_tuples printed day_offset)) = 48"
proof -
  let ?f = "\<lambda>c. sql_value (the (row_at E g day_offset c))"
  have fr: "?f ''Breeder'' = sql_value r"
    using r by simp
  show "length (day_tuples printed day_offset) = 49"
    by (simp add: day length_CATEGORIES)
  have "map ?f CATEGORIES ! 10 = ?f (CATEGORIES ! 10)" "map ?f CATEGORIES ! 29 = ?f (CATEGORIES ! 29)"
    by (rule nth_map, simp add: length_CATEGORIES)+
  then show "day_tuples printed day_offset ! 10 = sql_value r"
    "day_tuples printed day_offset ! 29 = sql_value r"
    by (simp_all only: day breeder_positions fr)
  have mem: "''Breeder'' \<in> set CATEGORIES"
    using breeder_positions(1) nth_mem [of 10 CATEGORIES] by (simp add: length_CATEGORIES)
  have inj: "x = y" if "x \<in> set CATEGORIES" "y \<in> set CATEGORIES" "?f x = ?f y" for x y
    using assms(1-4) that by (rule row_tuple_inj)
  have "count_list (map ?f CATEGORIES) (?f ''Breeder'') = count_list CATEGORIES ''Breeder''"
  proof (rule count_list_map_at)
    fix x assume "x \<in> set CATEGORIES" "?f x = ?f ''Breeder''"
    then show "x = ''Breeder''"
      using inj [of x "''Breeder''"] mem by blast
  qed
  then show "count_list (day_tuples printed day_offset) (sql_value r) = 2"
    by (simp only: day fr count_breeder)
  have "inj_on ?f (set CATEGORIES)"
    using inj by (intro inj_onI) blast
  then have "length (remdups (map ?f CATEGORIES)) = length (remdups CATEGORIES)"
    by (rule length_remdups_map)
  then show "length (remdups (day_tuples printed day_offset)) = 48"
    by (simp only: day distinct_categories)
qed

lemma header_total:
  "Line (''-- Total records: '' @ str_int (TOTAL_DAYS E * 49)) \<in> set (header E @ body @ ft)"
proof -
  have "Line (''-- Total records: '' @ str_int (TOTAL_DAYS E * 49)) \<in> set (header E)"
    by (simp add: header_def length_CATEGORIES)
  then show ?thesis
    by (simp only: set_append Un_iff simp_thms)
qed

text \<open>Single quotes in a value tuple, for arbitrary strings.\<close>

lemma count_replace_quote: "count_list (replace_quote s) quote = 2 * count_list s quote"
  by (induction s) auto

lemma count_quote_sql_value_fields:
  "count_list (sql_value r) quote
    = 10 + count_list (category r) quote + count_list (saleyard r) quote
      + count_list (state r) quote + count_list (date_str r) quote + count_list (source r) quote"
proof -
  have "count_list (sql_value r) quote
      = 1 + (count_list (category r) quote + (1 + (1 + (count_list (saleyard r) quote + (1 + (1
        + (count_list (state r) quote + (1 + (1 + (count_list (date_str r) quote + (1 + (1
        + (count_list (source r) quote + 1)))))))))))))"
    unfolding sql_value_def
    by (simp only: count_list_append count_quote_literals count_list_no_quote [OF no_quote_fmt4]
        add_0_left add_0_right)
  then show ?thesis
    by simp
qed

lemma choice_mem: "choice E xs g = Some (x, g') \<Longrightarrow> x \<in> set xs"
  by (auto simp: choice_def split: if_splits prod.splits)

lemma make_record_from_Some:
  assumes "make_record_from E saleyards states d date bp cat g = Some (r, g')"
  shows "\<exists>chosen st g1.
      choice E saleyards (rng_seed E (d + str_hash E cat)) = Some (chosen, g1)
    \<and> choice E states g1 = Some (st, g')
    \<and> r = \<lparr>category = cat, saleyard = replace_quote chosen, state = st,
            category_price = bp * get_category_multiplier cat, date_str = date,
            source = source_label d\<rparr>"
  using assms
  by (auto simp: make_record_from_def Let_def reseed_def split: option.splits prod.splits)

text \<open>Every value tuple printed is built by the loop body from an entry of \<open>CATEGORIES\<close>.\<close>

lemma make_record_from_total:
  assumes "rng_ok E" "saleyards \<noteq> []" "states \<noteq> []"
  shows "\<exists>r g'. make_record_from E saleyards states d date bp cat g = Some (r, g')"
proof -
  obtain chosen g1 where c1: "choice E saleyards (reseed E (d + str_hash E cat) g) = Some (chosen, g1)"
    using choice_Some [OF assms(1,2)] by blast
  obtain st g2 where c2: "choice E states g1 = Some (st, g2)"
    using choice_Some [OF assms(1,3)] by blast
  show ?thesis
    using c1 c2 by (simp add: make_record_from_def Let_def)
qed

lemma tuple_quotes:
  assumes "make_record_from E SALEYARDS STATES d date bp cat gx = Some (r, gy)"
    and "cat \<in> set CATEGORIES" "quote \<notin> set date"
  shows "count_list (sql_value r) quote = 10"
proof -
  obtain chosen st g1 where c: "choice E SALEYARDS (rng_seed E (d + str_hash E cat)) = Some (chosen, g1)"
    "choice E STATES g1 = Some (st, gy)"
    and r: "r = \<lparr>category = cat, saleyard = replace_quote chosen, state = st,
            category_price = bp * get_category_multiplier cat, date_str = date,
            source = source_label d\<rparr>"
    using make_record_from_Some [OF assms(1)] by blast
  have m: "chosen \<in> set SALEYARDS" "st \<in> set STATES"
    using c by (auto dest: choice_mem)
  have id: "replace_quote chosen = chosen"
    using m(1) by (intro replace_quote_id no_quote_SALEYARDS)
  show ?thesis
    using m assms(2,3) id
    by (intro count_quote_sql_value)
      (simp_all add: r no_quote_CATEGORIES no_quote_SALEYARDS no_quote_STATES no_quote_source_label)
qed

lemma emitted_row_origin:
  assumes "clock_ok E" "rng_ok E" "r \<in> set (emitted_rows E g)"
  shows "\<exists>d c dt bp gx gy. c \<in> set CATEGORIES \<and> quote \<notin> set dt
    \<and> make_record_from E SALEYARDS STATES d dt bp c gx = Some (r, gy)"
proof -
  obtain d where d: "0 \<le> d" "d < TOTAL_DAYS E" and rd: "r \<in> set (day_rows E g d)"
    using assms(3) by (auto simp: emitted_rows_def set_range_upto)
  obtain c where c: "c \<in> set CATEGORIES" and rc: "r = the (row_at E g d c)"
    using rd by (auto simp: day_rows_eq [OF assms(1,2) d])
  obtain bp g1 where rows: "\<And>c g2. \<exists>r g3. row_at E g d c = Some r
      \<and> make_record E d (strftime_ymd (END_DATE E - (TOTAL_DAYS E - d - 1))) bp c g2 = Some (r, g3)"
    using row_values_day [OF assms(1,2) d, of g g] by blast
  obtain r' g3 where "row_at E g d c = Some r'"
    "make_record E d (strftime_ymd (END_DATE E - (TOTAL_DAYS E - d - 1))) bp c g = Some (r', g3)"
    using rows [of c g] by blast
  then have "make_record_from E SALEYARDS STATES d
      (strftime_ymd (END_DATE E - (TOTAL_DAYS E - d - 1))) bp c g = Some (r, g3)"
    using rc by (simp add: make_record_def)
  with c no_quote_strftime show ?thesis
    by blast
qed

lemma printed_tuples_quotes:
  assumes "clock_ok E" "rng_ok E"
  shows "\<exists>printed. main E g = Some printed
    \<and> length (tuples printed) = nat (TOTAL_DAYS E) * length CATEGORIES
    \<and> (\<forall>v \<in> set (tuples printed). count_list v quote = 10
        \<and> (\<exists>d c dt bp gx rr gy. c \<in> set CATEGORIES
            \<and> make_record_from E SALEYARDS STATES d dt bp c gx = Some (rr, gy)
            \<and> v = sql_value rr))"
proof -
  obtain body where m: "main E g = Some (header E @ body @ footer (nat (TOTAL_DAYS E) * 49))"
    and t: "tuples (header E @ body @ footer (nat (TOTAL_DAYS E) * 49))
        = map sql_value (emitted_rows E g)"
    using main_tuples [OF assms, of g] by blast
  let ?printed = "header E @ body @ footer (nat (TOTAL_DAYS E) * 49)"
  have len: "length (tuples ?printed) = nat (TOTAL_DAYS E) * length CATEGORIES"
    unfolding t length_map length_emitted_rows [OF assms] length_CATEGORIES by (rule mult.commute)
  have each: "count_list v quote = 10
        \<and> (\<exists>d c dt bp gx rr gy. c \<in> set CATEGORIES
            \<and> make_record_from E SALEYARDS STATES d dt bp c gx = Some (rr, gy)
            \<and> v = sql_value rr)" if v: "v \<in> set (tuples ?printed)" for v
  proof -
    have "v \<in> sql_value ` set (emitted_rows E g)"
      using v unfolding t by simp
    then obtain rr where rr: "rr \<in> set (emitted_rows E g)" "v = sql_value rr"
      by blast
    obtain d c dt bp gx gy where o: "c \<in> set CATEGORIES" "quote \<notin> set dt"
      "make_record_from E SALEYARDS STATES d dt bp c gx = Some (rr, gy)"
      using emitted_row_origin [OF assms rr(1)] by blast
    have "count_list v quote = 10"
      unfolding rr(2) using o(3,1,2) by (rule tuple_quotes)
    with o rr(2) show ?thesis
      by blast
  qed
  from m len each show ?thesis
    by blast
qed

text \<open>The value tuple of the loop body in terms of what it is given and what it draws.\<close>

lemma sql_value_explicit:
  "sql_value \<lparr>category = c, saleyard = s, state = t, category_price = p, date_str = d, source = l\<rparr>
    = ''('' @ [quote] @ c @ [quote] @ '', '' @ [quote] @ s @ [quote] @ '', ''
      @ [quote] @ t @ [quote] @ '', '' @ fmt4 p @ '', ''
      @ [quote] @ d @ [quote] @ '', '' @ [quote] @ l @ [quote] @ '', true)''"
  unfolding sql_value_def price_record.simps by (rule refl)

lemma body_quotes:
  assumes "make_record_from E saleyards states day_offset date base_price cat g0 = Some (r, g')"
  shows "\<exists>chosen st g1.
        choice E saleyards (rng_seed E (day_offset + str_hash E cat)) = Some (chosen, g1)
      \<and> choice E states g1 = Some (st, g')
      \<and> chosen \<in> set saleyards \<and> st \<in> set states
      \<and> category r = cat \<and> saleyard r = replace_quote chosen \<and> state r = st
      \<and> date_str r = date \<and> source r = source_label day_offset
      \<and> sql_value r
          = ''('' @ [quote] @ cat @ [quote] @ '', '' @ [quote] @ replace_quote chosen @ [quote]
            @ '', '' @ [quote] @ st @ [quote] @ '', ''
            @ fmt4 (base_price * get_category_multiplier cat) @ '', ''
            @ [quote] @ date @ [quote] @ '', '' @ [quote] @ source_label day_offset @ [quote]
            @ '', true)''
      \<and> count_list (sql_value r) quote
          = 10 + count_list cat quote + 2 * count_list chosen quote + count_list st quote
            + count_list date quote"
proof -
  obtain chosen st g1 where c: "choice E saleyards (rng_seed E (day_offset + str_hash E cat)) = Some (chosen, g1)"
    "choice E states g1 = Some (st, g')"
    and r: "r = \<lparr>category = cat, saleyard = replace_quote chosen, state = st,
            category_price = base_price * get_category_multiplier cat, date_str = date,
            source = source_label day_offset\<rparr>"
    using make_record_from_Some [OF assms] by blast
  have m: "chosen \<in> set saleyards" "st \<in> set states"
    using c by (auto dest: choice_mem)
  have f: "category r = cat" "saleyard r = replace_quote chosen" "state r = st"
    "date_str r = date" "source r = source_label day_offset"
    by (simp_all add: r)
  have v: "sql_value r
          = ''('' @ [quote] @ cat @ [quote] @ '', '' @ [quote] @ replace_quote chosen @ [quote]
            @ '', '' @ [quote] @ st @ [quote] @ '', ''
            @ fmt4 (base_price * get_category_multiplier cat) @ '', ''
            @ [quote] @ date @ [quote] @ '', '' @ [quote] @ source_label day_offset @ [quote]
            @ '', true)''"
    unfolding r by (rule sql_value_explicit)
  have n: "count_list (sql_value r) quote
          = 10 + count_list cat quote + 2 * count_list chosen quote + count_list st quote
            + count_list date quote"
    unfolding count_quote_sql_value_fields f count_replace_quote
      count_list_no_quote [OF no_quote_source_label]
    by simp
  show ?thesis
    by (intro exI [of _ chosen] exI [of _ st] exI [of _ g1] conjI c m f v n)
qed

lemma sample_quote_counts:
  "count_list (''Drover'' @ [quote] @ ''s Ewe'') quote = 1"
  "count_list (''Mc'' @ [quote] @ ''Yard'') quote = 1"
  "count_list (''N'' @ [quote] @ ''T'') quote = 1"
  "count_list ''2026-11-04'' quote = 0"
  "replace_quote (''Mc'' @ [quote] @ ''Yard'') = ''Mc'' @ [quote, quote] @ ''Yard''"
  by (simp_all add: quote_def)

section \<open>The claims\<close>

text \<open>
  Claim C1. For every integer day offset from 0 up to, but not including, \<open>TOTAL_DAYS\<close>,
  \<open>calculate_price\<close> returns, and the price it returns lies in the closed interval from
  3.10 to 3.50. The clamp is the last step of \<open>calculate_price\<close>, before any category
  multiplier is applied.
\<close>

theorem calculate_price_clamped:
  assumes "clock_ok E" "0 \<le> day_offset" "day_offset < TOTAL_DAYS E"
  shows "\<exists>p g'. calculate_price E day_offset g = Some (p, g') \<and> 3.10 \<le> p \<and> p \<le> 3.50"
  using assms by (rule calculate_price_Some)

theorem calculate_price_clamped_witness:
  "clock_ok (sample_runtime sample_hash_a) \<and> (0::int) \<le> 0
    \<and> 0 < TOTAL_DAYS (sample_runtime sample_hash_a)
    \<and> (\<exists>p g'. calculate_price (sample_runtime sample_hash_a) 0 (0::nat) = Some (p, g')
          \<and> 3.10 \<le> p \<and> p \<le> 3.50)"
proof -
  have h: "clock_ok (sample_runtime sample_hash_a)" "(0::int) \<le> 0"
    "0 < TOTAL_DAYS (sample_runtime sample_hash_a)"
    by (simp_all add: sample_clock_ok sample_TOTAL_DAYS)
  from calculate_price_clamped [OF h, of 0] h show ?thesis
    by simp
qed

text \<open>
  Claim C2. Whenever \<open>calculate_price\<close> returns, its price is the base price times one
  plus the trend, the seasonal, the weekly and the daily term, clamped to the interval
  from 3.10 to 3.50, with these terms as the specification words them (\<open>spec_price\<close>);
  it raises exactly when the date of the seasonal term cannot be computed. The daily
  term is a function of the day offset alone and lies between -0.03 and 0.03.
\<close>

theorem calculate_price_formula:
  assumes "rng_ok E"
  shows "map_option fst (calculate_price E day_offset g)
      = map_option (\<lambda>date. spec_price E day_offset (tm_yday date))
          (minus_days (END_DATE E) (TOTAL_DAYS E - day_offset))
    \<and> - 0.03 \<le> spec_daily E day_offset \<and> spec_daily E day_offset \<le> 0.03"
  using calculate_price_spec [of E day_offset g] spec_daily_bounds [OF assms, of day_offset]
  by blast

theorem calculate_price_formula_witness:
  "rng_ok (sample_runtime sample_hash_a)
    \<and> map_option fst (calculate_price (sample_runtime sample_hash_a) 0 (0::nat))
      = Some (spec_price (sample_runtime sample_hash_a) 0 (tm_yday 738829))
    \<and> - 0.03 \<le> spec_daily (sample_runtime sample_hash_a) 0
    \<and> spec_daily (sample_runtime sample_hash_a) 0 \<le> 0.03"
proof -
  have m: "minus_days (END_DATE (sample_runtime sample_hash_a))
      (TOTAL_DAYS (sample_runtime sample_hash_a) - 0) = Some 738829"
    by (simp add: sample_TOTAL_DAYS sample_END_DATE minus_days_def MINORD_def MAXORD_def)
  from calculate_price_formula [OF sample_rng_ok, of sample_hash_a 0 0] m
    sample_rng_ok [of sample_hash_a]
  show ?thesis
    by simp
qed


text \<open>
  Claim C3, as amended. \<open>get_category_multiplier\<close> is a function of the category string
  alone; it maps \<open>Breeder Doe\<close> to 1.30, and the exact string \<open>Breeder\<close> to 1.15: the
  third rule of the chain tests \<open>category == "Breeder"\<close>, so that string never reaches
  the fallback.
\<close>

theorem multiplier_breeder_doe_and_breeder:
  "get_category_multiplier ''Breeder Doe'' = 1.30 \<and> get_category_multiplier ''Breeder'' = 1.15"
  by (simp add: get_category_multiplier_def any_in_def)

text \<open>
  Claim C3 as stated fails: the exact string \<open>Breeder\<close> does not get the fallback
  multiplier 1.0.
\<close>

theorem multiplier_breeder_not_fallback:
  "\<not> (get_category_multiplier ''Breeder Doe'' = 1.30 \<and> get_category_multiplier ''Breeder'' = 1.0)"
  by (simp add: get_category_multiplier_def any_in_def)





text \<open>
  Claim C6, as amended. The script runs to its end; every \<open>INSERT\<close> statement it prints
  holds at most 500 value tuples; the statements, in the order printed, hold exactly the
  value tuples of the rows of the run, in the order of the two loops, so every row is in
  exactly one statement; and the number of rows is the number of categories times
  \<open>TOTAL_DAYS\<close>, or zero when \<open>TOTAL_DAYS\<close> is negative.
\<close>

theorem batches_partition_rows:
  assumes "clock_ok E" "rng_ok E"
  shows "\<exists>printed. main E g = Some printed
    \<and> (\<forall>b \<in> set (inserts printed). length b \<le> 500)
    \<and> concat (inserts printed) = map sql_value (emitted_rows E g)
    \<and> int (length (emitted_rows E g)) = max 0 (TOTAL_DAYS E) * int (length CATEGORIES)
    \<and> int (length (concat (inserts printed))) = max 0 (TOTAL_DAYS E) * int (length CATEGORIES)"
proof -
  obtain body where m: "main E g = Some (header E @ body @ footer (length (emitted_rows E g)))"
    and c: "concat (inserts body) = map sql_value (emitted_rows E g)"
    and l: "list_all (\<lambda>b. b \<noteq> [] \<and> length b \<le> batch_size) (inserts body)"
    using main_output [OF assms, of g] by blast
  have i: "inserts (header E @ body @ footer (length (emitted_rows E g))) = inserts body"
    by (simp add: inserts_append inserts_header inserts_footer)
  have n: "int (length (emitted_rows E g)) = max 0 (TOTAL_DAYS E) * int (length CATEGORIES)"
    by (rule length_emitted_rows_max [OF assms])
  from l have "\<forall>b \<in> set (inserts body). length b \<le> 500"
    by (simp add: list_all_iff batch_size_def)
  moreover have "int (length (concat (inserts body)))
      = max 0 (TOTAL_DAYS E) * int (length CATEGORIES)"
    unfolding c length_map by (rule n)
  ultimately show ?thesis
    using m c n i by simp
qed

theorem batches_partition_rows_witness:
  "clock_ok (sample_runtime sample_hash_a) \<and> rng_ok (sample_runtime sample_hash_a)
    \<and> (\<exists>printed. main (sample_runtime sample_hash_a) (0::nat) = Some printed
      \<and> (\<forall>b \<in> set (inserts printed). length b \<le> 500)
      \<and> concat (inserts printed) = map sql_value (emitted_rows (sample_runtime sample_hash_a) 0)
      \<and> int (length (emitted_rows (sample_runtime sample_hash_a) (0::nat))) = 1095 * 49
      \<and> int (length (concat (inserts printed))) = 1095 * 49)"
proof -
  have h: "clock_ok (sample_runtime sample_hash_a)" "rng_ok (sample_runtime sample_hash_a)"
    by (simp_all add: sample_clock_ok sample_rng_ok)
  from batches_partition_rows [OF h, of 0] h show ?thesis
    by (simp add: sample_TOTAL_DAYS length_CATEGORIES)
qed

text \<open>
  Claim C6 as stated fails when the clock is read before \<open>START_DATE\<close>: on 2022-12-31
  \<open>TOTAL_DAYS\<close> is -1, the loop does not run and no row is printed, while the header
  reports -49 records.
\<close>

theorem rows_of_early_clock:
  "clock_ok early_runtime \<and> rng_ok early_runtime
    \<and> TOTAL_DAYS early_runtime = - 1
    \<and> main early_runtime 0 = Some (header early_runtime @ footer 0)
    \<and> Line ''-- Total records: -49'' \<in> set (header early_runtime)
    \<and> inserts (header early_runtime @ footer 0) = []
    \<and> emitted_rows early_runtime 0 = []
    \<and> int (length (emitted_rows early_runtime 0))
        \<noteq> TOTAL_DAYS early_runtime * int (length CATEGORIES)"
proof -
  have r: "range_upto (TOTAL_DAYS early_runtime) = []"
    by (simp add: range_upto_empty sample_early)
  have m: "main early_runtime 0 = Some (header early_runtime @ footer 0)"
    by (simp add: main_def r)
  have hd: "Line ''-- Total records: -49'' \<in> set (header early_runtime)"
    by (simp add: header_def sample_early length_CATEGORIES str_int_m49)
  have e: "emitted_rows early_runtime 0 = []"
    by (simp add: emitted_rows_def r)
  show ?thesis
    using sample_early m hd e
    by (simp add: inserts_append inserts_header inserts_footer length_CATEGORIES)
qed

text \<open>
  Claim C7 does not hold of the code: the seed of the draw is the day offset plus
  \<open>hash(category)\<close>, and Python salts the hash of a string anew in every process. With
  the sample generator and two hash functions, the same day offset and category get
  different saleyards and states.
\<close>

theorem saleyard_depends_on_hash_salt:
  "map_option (\<lambda>r. (saleyard r, state r)) (row_at (sample_runtime sample_hash_a) 0 0 ''Feeder Steer'')
      = Some (''Ballarat Regional Livestock Exchange'', ''VIC'')
    \<and> map_option (\<lambda>r. (saleyard r, state r)) (row_at (sample_runtime sample_hash_b) 0 0 ''Feeder Steer'')
      = Some (''Roma Saleyards'', ''NSW'')"
proof -
  have h: "clock_ok (sample_runtime h)" "rng_ok (sample_runtime h)"
    "(0::int) \<le> 0" "0 < TOTAL_DAYS (sample_runtime h)" for h
    by (simp_all add: sample_clock_ok sample_rng_ok sample_TOTAL_DAYS)
  show ?thesis
    by (simp only: row_at_saleyard_state [OF h] sample_draws sample_choices replace_quote_sample
        simp_thms)
qed

text \<open>
  Claim C8. The daily noise is drawn by reseeding the generator with the day offset and
  then drawing \<open>uniform(-0.03, 0.03)\<close> (\<open>daily_draw\<close>). For a fixed day offset, two such
  draws give the same value and leave the generator in the same state, from any two states
  of the generator and also in two processes with the same \<open>random\<close> library; the value
  lies between -0.03 and 0.03. This draw is the daily term of \<open>calculate_price\<close>, whose
  result therefore does not depend on the state of the generator either.
\<close>

theorem daily_noise_deterministic:
  assumes "rng_ok E" "rng_seed E' = rng_seed E" "rng_random E' = rng_random E"
  shows "daily_draw E day_offset g1 = daily_draw E day_offset g2
    \<and> daily_draw E' day_offset g1' = daily_draw E day_offset g1
    \<and> - 0.03 \<le> fst (daily_draw E day_offset g1) \<and> fst (daily_draw E day_offset g1) \<le> 0.03
    \<and> calculate_price E day_offset g1 =
        (case minus_days (END_DATE E) (TOTAL_DAYS E - day_offset) of
           None \<Rightarrow> None
         | Some date \<Rightarrow>
             Some (max 3.10 (min 3.50 (BASE_PRICE * (1.0
                     + market_trend (real_of_int day_offset / 1095.0)
                     + sin ((real_of_int (tm_yday date) / 365.0 * 2 * pi) - (pi / 2)) * 0.10
                     + sin (real_of_int (day_offset div 7 mod 13) / 13.0 * 2 * pi) * 0.08
                     + fst (daily_draw E day_offset g1)))),
                   snd (daily_draw E day_offset g1)))
    \<and> calculate_price E day_offset g1 = calculate_price E day_offset g2"
  using daily_draw_indep [of E day_offset g1 g2]
    daily_draw_same_library [OF assms(2,3), of day_offset g1' g1]
    daily_draw_bounds [OF assms(1), of day_offset g1]
    calculate_price_daily_draw [of E day_offset g1]
    calculate_price_indep [of E day_offset g1 g2]
  by (intro conjI) blast+

theorem daily_noise_deterministic_witness:
  "rng_ok (sample_runtime sample_hash_a)
    \<and> rng_seed (sample_runtime sample_hash_b) = rng_seed (sample_runtime sample_hash_a)
    \<and> rng_random (sample_runtime sample_hash_b) = rng_random (sample_runtime sample_hash_a)
    \<and> daily_draw (sample_runtime sample_hash_a) 5 (1::nat) = daily_draw (sample_runtime sample_hash_a) 5 2
    \<and> daily_draw (sample_runtime sample_hash_b) 5 (3::nat) = daily_draw (sample_runtime sample_hash_a) 5 1
    \<and> fst (daily_draw (sample_runtime sample_hash_a) 5 1) = - 0.01356
    \<and> - 0.03 \<le> fst (daily_draw (sample_runtime sample_hash_a) 5 1)
    \<and> fst (daily_draw (sample_runtime sample_hash_a) 5 1) \<le> 0.03
    \<and> calculate_price (sample_runtime sample_hash_a) 5 1 = calculate_price (sample_runtime sample_hash_a) 5 2"
proof -
  have h: "rng_ok (sample_runtime sample_hash_a)"
    "rng_seed (sample_runtime sample_hash_b) = rng_seed (sample_runtime sample_hash_a)"
    "rng_random (sample_runtime sample_hash_b) = rng_random (sample_runtime sample_hash_a)"
    by (simp_all add: sample_rng_ok sample_same_library)
  have v: "fst (daily_draw (sample_runtime sample_hash_a) 5 1) = - 0.01356"
    by (simp add: sample_daily_draw)
  from daily_noise_deterministic [OF h, where day_offset = 5 and ?g1.0 = 1 and ?g2.0 = 2
      and g1' = 3] h v
  show ?thesis
    by blast
qed

text \<open>
  Claim C9. The string \<open>Breeder\<close> stands twice in \<open>CATEGORIES\<close>, at the positions 10
  (cattle) and 29 (pigs) of its 49 entries, of which 48 are distinct. So among the 49
  value tuples that the script prints for a day, the tuples at these two positions are the
  same text, the tuple of the row of \<open>Breeder\<close>; that text occurs exactly twice, and the
  day has only 48 distinct tuples. The number of tuples printed, and the totals that the
  header and the last lines report, are 49 for each day and count the category twice.
\<close>

theorem breeder_emitted_twice:
  assumes "clock_ok E" "rng_ok E" "0 \<le> day_offset" "day_offset < TOTAL_DAYS E"
  shows "CATEGORIES ! 10 = ''Breeder'' \<and> CATEGORIES ! 29 = ''Breeder''
    \<and> count_list CATEGORIES ''Breeder'' = 2
    \<and> length CATEGORIES = 49 \<and> length (remdups CATEGORIES) = 48
    \<and> (\<exists>printed body r.
          main E g = Some printed
        \<and> printed = header E @ body @ footer (nat (TOTAL_DAYS E) * 49)
        \<and> Line (''-- Total records: '' @ str_int (TOTAL_DAYS E * 49)) \<in> set printed
        \<and> length (tuples printed) = nat (TOTAL_DAYS E) * 49
        \<and> length (day_tuples printed day_offset) = 49
        \<and> row_at E g day_offset ''Breeder'' = Some r \<and> category r = ''Breeder''
        \<and> day_tuples printed day_offset ! 10 = sql_value r
        \<and> day_tuples printed day_offset ! 29 = sql_value r
        \<and> count_list (day_tuples printed day_offset) (sql_value r) = 2
        \<and> length (remdups (day_tuples printed day_offset)) = 48)"
proof -
  obtain body where m: "main E g = Some (header E @ body @ footer (nat (TOTAL_DAYS E) * 49))"
    and t: "tuples (header E @ body @ footer (nat (TOTAL_DAYS E) * 49))
        = map sql_value (emitted_rows E g)"
    using main_tuples [OF assms(1,2), of g] by blast
  let ?printed = "header E @ body @ footer (nat (TOTAL_DAYS E) * 49)"
  obtain r where r: "row_at E g day_offset ''Breeder'' = Some r"
    using row_at_Some [OF assms, of g "''Breeder''"] by blast
  have cr: "category r = ''Breeder''"
    using row_at_category [OF assms, of g "''Breeder''"] unfolding r option.sel .
  have day: "day_tuples ?printed day_offset
      = map (\<lambda>c. sql_value (the (row_at E g day_offset c))) CATEGORIES"
    using assms t by (rule day_tuples_eq)
  have hdr: "Line (''-- Total records: '' @ str_int (TOTAL_DAYS E * 49)) \<in> set ?printed"
    by (rule header_total)
  have len: "length (tuples ?printed) = nat (TOTAL_DAYS E) * 49"
    unfolding t length_map length_emitted_rows [OF assms(1,2)] by (rule mult.commute)
  note d = breeder_day [OF assms day r]
  have "main E g = Some ?printed
        \<and> ?printed = header E @ body @ footer (nat (TOTAL_DAYS E) * 49)
        \<and> Line (''-- Total records: '' @ str_int (TOTAL_DAYS E * 49)) \<in> set ?printed
        \<and> length (tuples ?printed) = nat (TOTAL_DAYS E) * 49
        \<and> length (day_tuples ?printed day_offset) = 49
        \<and> row_at E g day_offset ''Breeder'' = Some r \<and> category r = ''Breeder''
        \<and> day_tuples ?printed day_offset ! 10 = sql_value r
        \<and> day_tuples ?printed day_offset ! 29 = sql_value r
        \<and> count_list (day_tuples ?printed day_offset) (sql_value r) = 2
        \<and> length (remdups (day_tuples ?printed day_offset)) = 48"
    by (intro conjI m refl hdr len d r cr)
  then have ex: "\<exists>printed body r.
          main E g = Some printed
        \<and> printed = header E @ body @ footer (nat (TOTAL_DAYS E) * 49)
        \<and> Line (''-- Total records: '' @ str_int (TOTAL_DAYS E * 49)) \<in> set printed
        \<and> length (tuples printed) = nat (TOTAL_DAYS E) * 49
        \<and> length (day_tuples printed day_offset) = 49
        \<and> row_at E g day_offset ''Breeder'' = Some r \<and> category r = ''Breeder''
        \<and> day_tuples printed day_offset ! 10 = sql_value r
        \<and> day_tuples printed day_offset ! 29 = sql_value r
        \<and> count_list (day_tuples printed day_offset) (sql_value r) = 2
        \<and> length (remdups (day_tuples printed day_offset)) = 48"
    by (intro exI)
  show ?thesis
    by (intro conjI breeder_positions count_breeder length_CATEGORIES distinct_categories ex)
qed

theorem breeder_emitted_twice_witness:
  "clock_ok (sample_runtime sample_hash_a) \<and> rng_ok (sample_runtime sample_hash_a)
    \<and> (0::int) \<le> 100 \<and> 100 < TOTAL_DAYS (sample_runtime sample_hash_a)
    \<and> (\<exists>printed r.
          main (sample_runtime sample_hash_a) (0::nat) = Some printed
        \<and> length (tuples printed) = 1095 * 49
        \<and> length (day_tuples printed 100) = 49
        \<and> row_at (sample_runtime sample_hash_a) 0 100 ''Breeder'' = Some r
        \<and> category r = ''Breeder''
        \<and> day_tuples printed 100 ! 10 = sql_value r
        \<and> day_tuples printed 100 ! 29 = sql_value r
        \<and> count_list (day_tuples printed 100) (sql_value r) = 2
        \<and> length (remdups (day_tuples printed 100)) = 48)"
proof -
  have h: "clock_ok (sample_runtime sample_hash_a)" "rng_ok (sample_runtime sample_hash_a)"
    "(0::int) \<le> 100" "100 < TOTAL_DAYS (sample_runtime sample_hash_a)"
    by (simp_all add: sample_clock_ok sample_rng_ok sample_TOTAL_DAYS)
  have n: "nat (TOTAL_DAYS (sample_runtime sample_hash_a)) * 49 = 1095 * 49"
    by (simp add: sample_TOTAL_DAYS)
  obtain printed r where p:
    "main (sample_runtime sample_hash_a) (0::nat) = Some printed"
    "length (tuples printed) = nat (TOTAL_DAYS (sample_runtime sample_hash_a)) * 49"
    "length (day_tuples printed 100) = 49"
    "row_at (sample_runtime sample_hash_a) 0 100 ''Breeder'' = Some r"
    "category r = ''Breeder''"
    "day_tuples printed 100 ! 10 = sql_value r"
    "day_tuples printed 100 ! 29 = sql_value r"
    "count_list (day_tuples printed 100) (sql_value r) = 2"
    "length (remdups (day_tuples printed 100)) = 48"
    using breeder_emitted_twice [OF h, of 0] by (elim conjE exE) (rule that)
  have "main (sample_runtime sample_hash_a) (0::nat) = Some printed
        \<and> length (tuples printed) = 1095 * 49
        \<and> length (day_tuples printed 100) = 49
        \<and> row_at (sample_runtime sample_hash_a) 0 100 ''Breeder'' = Some r
        \<and> category r = ''Breeder''
        \<and> day_tuples printed 100 ! 10 = sql_value r
        \<and> day_tuples printed 100 ! 29 = sql_value r
        \<and> count_list (day_tuples printed 100) (sql_value r) = 2
        \<and> length (remdups (day_tuples printed 100)) = 48"
    using p unfolding n by (intro conjI)
  then have "\<exists>printed r.
          main (sample_runtime sample_hash_a) (0::nat) = Some printed
        \<and> length (tuples printed) = 1095 * 49
        \<and> length (day_tuples printed 100) = 49
        \<and> row_at (sample_runtime sample_hash_a) 0 100 ''Breeder'' = Some r
        \<and> category r = ''Breeder''
        \<and> day_tuples printed 100 ! 10 = sql_value r
        \<and> day_tuples printed 100 ! 29 = sql_value r
        \<and> count_list (day_tuples printed 100) (sql_value r) = 2
        \<and> length (remdups (day_tuples printed 100)) = 48"
    by (intro exI)
  with h show ?thesis
    by (intro conjI)
qed

text \<open>
  Claim C10. Of the strings embedded in a value tuple only the saleyard passes through
  the escaping of single quotes. Whatever the category, the date and the two lists drawn
  from, the loop body embeds the category, the chosen state, the date and the source
  label as they are, and the chosen saleyard with its quotes doubled: the tuple holds its
  ten delimiting quotes, every quote of the category, the state and the date once, and
  every quote of the saleyard twice. No element of \<open>CATEGORIES\<close>, \<open>SALEYARDS\<close> or
  \<open>STATES\<close> contains a single quote, so every value tuple that the script prints, each
  built by this body from an entry of \<open>CATEGORIES\<close>, holds the ten delimiting quotes
  and no other.
\<close>

theorem only_saleyard_escaped_no_quotes:
  assumes "clock_ok E" "rng_ok E"
    and "make_record_from E saleyards states day_offset date base_price cat g0 = Some (r, g')"
  shows "(\<exists>chosen st g1.
        choice E saleyards (rng_seed E (day_offset + str_hash E cat)) = Some (chosen, g1)
      \<and> choice E states g1 = Some (st, g')
      \<and> chosen \<in> set saleyards \<and> st \<in> set states
      \<and> category r = cat \<and> saleyard r = replace_quote chosen \<and> state r = st
      \<and> date_str r = date \<and> source r = source_label day_offset
      \<and> sql_value r
          = ''('' @ [quote] @ cat @ [quote] @ '', '' @ [quote] @ replace_quote chosen @ [quote]
            @ '', '' @ [quote] @ st @ [quote] @ '', ''
            @ fmt4 (base_price * get_category_multiplier cat) @ '', ''
            @ [quote] @ date @ [quote] @ '', '' @ [quote] @ source_label day_offset @ [quote]
            @ '', true)''
      \<and> count_list (sql_value r) quote
          = 10 + count_list cat quote + 2 * count_list chosen quote + count_list st quote
            + count_list date quote)
    \<and> (\<forall>x \<in> set CATEGORIES \<union> set SALEYARDS \<union> set STATES. quote \<notin> set x)
    \<and> (\<exists>printed. main E g = Some printed
        \<and> length (tuples printed) = nat (TOTAL_DAYS E) * length CATEGORIES
        \<and> (\<forall>v \<in> set (tuples printed). count_list v quote = 10
            \<and> (\<exists>d c dt bp gx rr gy. c \<in> set CATEGORIES
                \<and> make_record_from E SALEYARDS STATES d dt bp c gx = Some (rr, gy)
                \<and> v = sql_value rr)))"
proof -
  have lists: "\<forall>x \<in> set CATEGORIES \<union> set SALEYARDS \<union> set STATES. quote \<notin> set x"
    using no_quote_CATEGORIES no_quote_SALEYARDS no_quote_STATES by blast
  show ?thesis
    by (intro conjI body_quotes [OF assms(3)] lists printed_tuples_quotes [OF assms(1,2)])
qed

theorem only_saleyard_escaped_no_quotes_witness:
  "clock_ok (sample_runtime sample_hash_a) \<and> rng_ok (sample_runtime sample_hash_a)
    \<and> (\<exists>r g'. make_record_from (sample_runtime sample_hash_a)
            [''Mc'' @ [quote] @ ''Yard''] [''N'' @ [quote] @ ''T''] 0 ''2026-11-04'' 3.3
            (''Drover'' @ [quote] @ ''s Ewe'') (0::nat) = Some (r, g')
        \<and> category r = ''Drover'' @ [quote] @ ''s Ewe''
        \<and> saleyard r = ''Mc'' @ [quote, quote] @ ''Yard''
        \<and> state r = ''N'' @ [quote] @ ''T''
        \<and> count_list (sql_value r) quote = 14)
    \<and> (\<exists>printed. main (sample_runtime sample_hash_a) (0::nat) = Some printed
        \<and> length (tuples printed) = 1095 * 49
        \<and> (\<forall>v \<in> set (tuples printed). count_list v quote = 10))"
proof -
  let ?E = "sample_runtime sample_hash_a"
  let ?c = "''Drover'' @ [quote] @ ''s Ewe''"
  let ?s = "''Mc'' @ [quote] @ ''Yard''"
  let ?t = "''N'' @ [quote] @ ''T''"
  have h: "clock_ok ?E" "rng_ok ?E"
    by (simp_all add: sample_clock_ok sample_rng_ok)
  obtain r g' where mr: "make_record_from ?E [?s] [?t] 0 ''2026-11-04'' 3.3 ?c (0::nat) = Some (r, g')"
    using make_record_from_total [OF h(2), of "[?s]" "[?t]" 0 "''2026-11-04''" "3.3" "?c" 0] by blast
  note t = only_saleyard_escaped_no_quotes [OF h mr, of 0]
  obtain chosen st where f: "chosen \<in> set [?s]" "st \<in> set [?t]"
    "category r = ?c" "saleyard r = replace_quote chosen" "state r = st"
    "count_list (sql_value r) quote
      = 10 + count_list ?c quote + 2 * count_list chosen quote + count_list st quote
        + count_list ''2026-11-04'' quote"
    using t by blast
  have e: "chosen = ?s" "st = ?t"
    using f(1,2) by simp_all
  have a: "category r = ?c \<and> saleyard r = ''Mc'' @ [quote, quote] @ ''Yard'' \<and> state r = ?t
      \<and> count_list (sql_value r) quote = 14"
    using f(3-6) unfolding e sample_quote_counts by simp
  obtain printed where p: "main ?E 0 = Some printed"
    "length (tuples printed) = nat (TOTAL_DAYS ?E) * length CATEGORIES"
    "\<forall>v \<in> set (tuples printed). count_list v quote = 10"
    using t by blast
  have n: "nat (TOTAL_DAYS ?E) * length CATEGORIES = 1095 * 49"
    by (simp add: sample_TOTAL_DAYS length_CATEGORIES)
  have b: "\<exists>printed. main ?E 0 = Some printed \<and> length (tuples printed) = 1095 * 49
        \<and> (\<forall>v \<in> set (tuples printed). count_list v quote = 10)"
    using p unfolding n by blast
  from h mr a b show ?thesis
    by blast
qed

end
